theory Spec2Isabelle
  imports Complex_Main "HOL-Library.Sublist" "HOL-Library.Multiset" "HOL-Library.AList"
begin

section \<open>Text\<close>

text \<open>
  Python text is modelled as a list of 8-bit characters, read as the code points 0..255.
  On that range \<open>str.isspace\<close> and \<open>str.lower\<close> are the two functions below.
\<close>

definition is_space :: "char \<Rightarrow> bool" where
  "is_space c =
     (let n = (of_char c :: nat)
      in (9 \<le> n \<and> n \<le> 13) \<or> (28 \<le> n \<and> n \<le> 32) \<or> n = 133 \<or> n = 160)"

definition lower_char :: "char \<Rightarrow> char" where
  "lower_char c =
     (let n = (of_char c :: nat)
      in if (65 \<le> n \<and> n \<le> 90) \<or> (192 \<le> n \<and> n \<le> 222 \<and> n \<noteq> 215)
         then char_of (n + 32) else c)"

definition lower :: "string \<Rightarrow> string" where
  "lower s = map lower_char s"

definition newline :: char where
  "newline = CHR 0x0A"

text \<open>\<open>pat in s\<close>: \<open>pat\<close> occurs in \<open>s\<close> as a contiguous run.\<close>

fun str_in :: "string \<Rightarrow> string \<Rightarrow> bool" where
  "str_in pat [] = (pat = [])"
| "str_in pat (c # cs) = (prefix pat (c # cs) \<or> str_in pat cs)"

text \<open>\<open>s.strip()\<close>: white space removed at both ends.\<close>

definition strip :: "string \<Rightarrow> string" where
  "strip s = rev (dropWhile is_space (rev (dropWhile is_space s)))"

text \<open>\<open>s.split(sep)\<close> for a separator of one character: always at least one piece.\<close>

fun split_char :: "char \<Rightarrow> string \<Rightarrow> string list" where
  "split_char sep [] = [[]]"
| "split_char sep (c # cs) =
     (if c = sep then [] # split_char sep cs
      else (case split_char sep cs of
              [] \<Rightarrow> [[c]]
            | p # ps \<Rightarrow> (c # p) # ps))"

text \<open>\<open>s.split()\<close>: the maximal runs of characters that are not white space.\<close>

fun split_acc :: "string \<Rightarrow> string \<Rightarrow> string list" where
  "split_acc cur [] = (if cur = [] then [] else [rev cur])"
| "split_acc cur (c # cs) =
     (if is_space c
      then (if cur = [] then split_acc [] cs else rev cur # split_acc [] cs)
      else split_acc (c # cur) cs)"

definition split_ws :: "string \<Rightarrow> string list" where
  "split_ws s = split_acc [] s"

text \<open>\<open>sep.join(parts)\<close>.\<close>

fun join :: "string \<Rightarrow> string list \<Rightarrow> string" where
  "join sep [] = []"
| "join sep [p] = p"
| "join sep (p # q # ps) = p @ sep @ join sep (q # ps)"

text \<open>\<open>s.find(c)\<close> and \<open>s.rfind(c)\<close> for one character: an index, or -1.\<close>

definition py_find :: "char \<Rightarrow> string \<Rightarrow> int" where
  "py_find c s =
     (if c \<in> set s then int (length (takeWhile (\<lambda>x. x \<noteq> c) s)) else - 1)"

definition py_rfind :: "char \<Rightarrow> string \<Rightarrow> int" where
  "py_rfind c s =
     (if c \<in> set s
      then int (length s) - 1 - int (length (takeWhile (\<lambda>x. x \<noteq> c) (rev s)))
      else - 1)"

text \<open>
  The slice \<open>xs[:k]\<close>: the first \<open>k\<close> elements, and for a negative \<open>k\<close> all but
  the last \<open>-k\<close>. The slice \<open>xs[a:b]\<close> is used by the source with both bounds
  non-negative only.
\<close>

definition py_take :: "int \<Rightarrow> 'a list \<Rightarrow> 'a list" where
  "py_take k xs =
     (if 0 \<le> k then take (nat k) xs else take (nat (int (length xs) + k)) xs)"

definition py_slice :: "int \<Rightarrow> int \<Rightarrow> 'a list \<Rightarrow> 'a list" where
  "py_slice a b xs = drop (nat a) (py_take b xs)"

text \<open>The decimal text of a number, as an f-string prints it.\<close>

definition digit_char :: "nat \<Rightarrow> char" where
  "digit_char d = char_of (48 + d)"

fun str_of_nat :: "nat \<Rightarrow> string" where
  "str_of_nat n =
     (if n < 10 then [digit_char n] else str_of_nat (n div 10) @ [digit_char (n mod 10)])"

declare str_of_nat.simps [simp del]

section \<open>Query decomposition\<close>

text \<open>
  A sub-question is the dictionary with the keys \<open>question\<close>, \<open>type\<close> and
  \<open>priority\<close>. The priority is optional, since the source reads it with
  \<open>x.get('priority', 3)\<close>; priorities are integers, as the prompt asks for.
\<close>

record sub_question =
  question :: string
  qtype :: string
  priority :: "int option"

definition mk_sub_question :: "string \<Rightarrow> string \<Rightarrow> int \<Rightarrow> sub_question" where
  "mk_sub_question q t p = \<lparr>question = q, qtype = t, priority = Some p\<rparr>"

text \<open>\<open>_fallback_decomposition\<close>: three keyword rules, then the general question.\<close>

definition linear_regression_rule :: "sub_question list" where
  "linear_regression_rule =
     [mk_sub_question ''How to perform linear regression in R?'' ''function'' 1,
      mk_sub_question ''What packages are needed for linear regression?'' ''package'' 2,
      mk_sub_question ''How to check linear regression assumptions?'' ''concept'' 2]"

definition plot_rule :: "sub_question list" where
  "plot_rule =
     [mk_sub_question ''How to create plots in R?'' ''function'' 1,
      mk_sub_question ''What visualization packages are available?'' ''package'' 2]"

definition data_rule :: "sub_question list" where
  "data_rule =
     [mk_sub_question ''How to read data in R?'' ''function'' 1,
      mk_sub_question ''What data import packages are available?'' ''package'' 2]"

definition fallback_decomposition :: "string \<Rightarrow> sub_question list" where
  "fallback_decomposition user_query =
     (let query_lower = lower user_query;
          s1 = (if str_in ''linear regression'' query_lower \<or> str_in ''lm('' query_lower
                then linear_regression_rule else []);
          s2 = s1 @ (if str_in ''plot'' query_lower \<or> str_in ''visualization'' query_lower
                     then plot_rule else []);
          s3 = s2 @ (if str_in ''data'' query_lower \<and>
                        (\<exists>word \<in> set [''import'', ''read'', ''load'']. str_in word query_lower)
                     then data_rule else [])
      in if s3 = [] then [mk_sub_question user_query ''general'' 1] else s3)"

text \<open>
  \<open>decompose_query\<close>. The language model and \<open>json.loads\<close> are outside the
  repository: the model's answer is a parameter (\<open>None\<close> when the call raises) and so
  is the parser (\<open>None\<close> when it raises). A parsed array holds objects, which are
  sub-questions, and other elements, on which the sort key \<open>x.get\<close> raises; every
  exception inside the \<open>try\<close> leads to the fallback.
\<close>

datatype jitem = JObject sub_question | JOther

fun the_objects :: "jitem list \<Rightarrow> sub_question list option" where
  "the_objects [] = Some []"
| "the_objects (JObject q # xs) = map_option ((#) q) (the_objects xs)"
| "the_objects (JOther # xs) = None"

definition priority_key :: "sub_question \<Rightarrow> int" where
  "priority_key x = (case priority x of None \<Rightarrow> 3 | Some p \<Rightarrow> p)"

definition decompose_query ::
  "(string \<Rightarrow> jitem list option) \<Rightarrow> string option \<Rightarrow> string \<Rightarrow> sub_question list" where
  "decompose_query json_loads llm_response user_query =
     (case llm_response of
        None \<Rightarrow> fallback_decomposition user_query
      | Some response \<Rightarrow>
          (let start_idx = py_find CHR ''['' response;
               end_idx = py_rfind CHR '']'' response + 1
           in if start_idx \<noteq> - 1 \<and> end_idx \<noteq> - 1
              then (case json_loads (py_slice start_idx end_idx response) of
                      None \<Rightarrow> fallback_decomposition user_query
                    | Some items \<Rightarrow>
                        (case the_objects items of
                           None \<Rightarrow> fallback_decomposition user_query
                         | Some sub_questions \<Rightarrow> sort_key priority_key sub_questions))
              else fallback_decomposition user_query))"

text \<open>The text handed to the parser: \<open>json_str = response[start_idx:end_idx]\<close>.\<close>

definition json_str :: "string \<Rightarrow> string" where
  "json_str response =
     py_slice (py_find CHR ''['' response) (py_rfind CHR '']'' response + 1) response"

lemma fallback_decomposition_nonempty: "fallback_decomposition q \<noteq> []"
  by (simp add: fallback_decomposition_def Let_def)

section \<open>Documents\<close>

text \<open>
  \<open>Document\<close>: content, metadata and id. Metadata values are kept as their text,
  which is what the source compares and prints; a key is looked up at its first entry.
  Scores are Python floats; they are modelled as real numbers.
\<close>

record document =
  content :: string
  metadata :: "(string \<times> string) list"
  doc_id :: string

definition meta_get :: "document \<Rightarrow> string \<Rightarrow> string \<Rightarrow> string" where
  "meta_get d k dflt = (case map_of (metadata d) k of None \<Rightarrow> dflt | Some v \<Rightarrow> v)"

datatype error =
    EmbeddingModelNotInitialized
  | CollectionNotFound
  | ZeroDivision
  | IndexBuildFailed
  | VectorStoreFailed

type_synonym retrieval_result = "(document \<times> real) list"

text \<open>\<open>sorted(xs, key=lambda x: x[1], reverse=True)\<close>: descending and stable.\<close>

definition sort_desc :: "('a \<times> real) list \<Rightarrow> ('a \<times> real) list" where
  "sort_desc xs = sort_key (\<lambda>p. - snd p) xs"

section \<open>Hybrid retrieval\<close>

text \<open>
  The retriever holds the corpus, the lexical index (\<open>None\<close> until it is built or
  loaded), the embedding model (\<open>None\<close> until it is loaded) and the collection of the
  vector store (\<open>None\<close> while the store has no collection of that name).
\<close>

record ('idx, 'coll) retriever =
  bm25 :: "'idx option"
  documents :: "document list"
  embedding_model :: "string option"
  collection :: "'coll option"

text \<open>
  The libraries the retriever calls are parameters: the constructor of the lexical index
  and its scoring, numpy's \<open>argsort\<close>, the vector store (embedding included), and the
  order in which Python iterates over a set of strings. \<open>None\<close> is a raised exception.
\<close>

record ('idx, 'coll) libs =
  bm25_okapi :: "string list list \<Rightarrow> 'idx option"
  get_scores :: "'idx \<Rightarrow> string list \<Rightarrow> real list"
  argsort :: "real list \<Rightarrow> nat list"
  create_collection :: "'coll"
  collection_add :: "'coll \<Rightarrow> document list \<Rightarrow> 'coll option"
  collection_query :: "'coll \<Rightarrow> string \<Rightarrow> int \<Rightarrow> (string \<times> real) list option"
  set_iter :: "string list \<Rightarrow> string list"

text \<open>
  \<open>add_documents\<close> and \<open>_add_to_vector_db\<close>. The corpus is extended and the lexical
  index rebuilt before the vector store is touched, so an exception leaves the retriever
  in the state reached so far: the result is that state and the exception, if any.
\<close>

definition add_to_vector_db ::
  "('idx, 'coll) libs \<Rightarrow> ('idx, 'coll) retriever \<Rightarrow> document list
     \<Rightarrow> ('idx, 'coll) retriever \<times> error option" where
  "add_to_vector_db L s docs =
     (if embedding_model s = None then (s, Some EmbeddingModelNotInitialized)
      else (let coll = (case collection s of Some c \<Rightarrow> c | None \<Rightarrow> create_collection L)
            in case collection_add L coll docs of
                 None \<Rightarrow> (s\<lparr>collection := Some coll\<rparr>, Some VectorStoreFailed)
               | Some coll' \<Rightarrow> (s\<lparr>collection := Some coll'\<rparr>, None)))"

definition add_documents ::
  "('idx, 'coll) libs \<Rightarrow> ('idx, 'coll) retriever \<Rightarrow> document list
     \<Rightarrow> ('idx, 'coll) retriever \<times> error option" where
  "add_documents L s docs =
     (let s1 = s\<lparr>documents := documents s @ docs\<rparr>;
          tokenized_texts = map (\<lambda>doc. split_ws (content doc)) (documents s1)
      in case bm25_okapi L tokenized_texts of
           None \<Rightarrow> (s1, Some IndexBuildFailed)
         | Some idx \<Rightarrow> add_to_vector_db L (s1\<lparr>bm25 := Some idx\<rparr>) docs)"

text \<open>\<open>_bm25_retrieve\<close>: the \<open>top_k\<close> best indices of the corpus with their raw scores.\<close>

definition bm25_retrieve ::
  "('idx, 'coll) libs \<Rightarrow> 'idx \<Rightarrow> string \<Rightarrow> int \<Rightarrow> (nat \<times> real) list" where
  "bm25_retrieve L idx q top_k =
     (let query_tokens = split_ws q;
          scores = get_scores L idx query_tokens;
          top_indices = py_take top_k (rev (argsort L scores))
      in map (\<lambda>i. (i, scores ! i)) top_indices)"

text \<open>\<open>_dense_retrieve\<close>: ids with the similarity \<open>1 / (1 + distance)\<close>.\<close>

fun similarities :: "(string \<times> real) list \<Rightarrow> error + (string \<times> real) list" where
  "similarities [] = Inr []"
| "similarities ((i, distance) # rest) =
     (if 1 + distance = 0 then Inl ZeroDivision
      else (case similarities rest of
              Inl e \<Rightarrow> Inl e
            | Inr doc_results \<Rightarrow> Inr ((i, 1 / (1 + distance)) # doc_results)))"

definition dense_retrieve ::
  "('idx, 'coll) libs \<Rightarrow> ('idx, 'coll) retriever \<Rightarrow> string \<Rightarrow> int
     \<Rightarrow> error + (string \<times> real) list" where
  "dense_retrieve L s q top_k =
     (case collection s of
        None \<Rightarrow> Inl CollectionNotFound
      | Some coll \<Rightarrow>
          (case collection_query L coll q top_k of
             None \<Rightarrow> Inl VectorStoreFailed
           | Some results \<Rightarrow> similarities results))"

text \<open>
  \<open>_hybrid_rerank\<close>. Each pass is scaled by its own maximum. A dictionary built from a
  list of pairs keeps the last value written for a key; the documents of the lexical
  pass are named by their position in the corpus.
\<close>

fun max_list :: "real list \<Rightarrow> real" where
  "max_list [] = 0"
| "max_list (x # xs) = fold max xs x"

definition normalize :: "('a \<times> real) list \<Rightarrow> ('a \<times> real) list" where
  "normalize results =
     (if results \<noteq> []
      then (let m = max_list (map snd results)
            in map (\<lambda>(k, score). (k, if m > 0 then score / m else 0)) results)
      else results)"

definition dict_of :: "('k \<times> 'v) list \<Rightarrow> 'k \<rightharpoonup> 'v" where
  "dict_of kvs = map_of (rev kvs)"

definition get0 :: "('k \<rightharpoonup> real) \<Rightarrow> 'k \<Rightarrow> real" where
  "get0 d k = (case d k of None \<Rightarrow> 0 | Some v \<Rightarrow> v)"

definition bm25_pairs :: "document list \<Rightarrow> (nat \<times> real) list \<Rightarrow> (string \<times> real) list" where
  "bm25_pairs docs bm25_results =
     map (\<lambda>(idx, score). (doc_id (docs ! idx), score))
         (filter (\<lambda>(idx, score). idx < length docs) (normalize bm25_results))"

definition bm25_scores_of :: "document list \<Rightarrow> (nat \<times> real) list \<Rightarrow> string \<rightharpoonup> real" where
  "bm25_scores_of docs bm25_results = dict_of (bm25_pairs docs bm25_results)"

definition dense_scores_of :: "(string \<times> real) list \<Rightarrow> string \<rightharpoonup> real" where
  "dense_scores_of dense_results = dict_of (normalize dense_results)"

text \<open>
  The ids of both dictionaries, as a set; \<open>iter\<close> is the order in which the loop over
  that set visits them.
\<close>

definition all_doc_ids ::
  "(string list \<Rightarrow> string list) \<Rightarrow> document list \<Rightarrow> (nat \<times> real) list
     \<Rightarrow> (string \<times> real) list \<Rightarrow> string list" where
  "all_doc_ids iter docs bm25_results dense_results =
     iter (remdups (map fst (bm25_pairs docs bm25_results) @ map fst (normalize dense_results)))"


definition combined_score ::
  "document list \<Rightarrow> (nat \<times> real) list \<Rightarrow> (string \<times> real) list \<Rightarrow> real \<Rightarrow> string \<Rightarrow> real" where
  "combined_score docs bm25_results dense_results bm25_weight i =
     bm25_weight * get0 (bm25_scores_of docs bm25_results) i
       + (1 - bm25_weight) * get0 (dense_scores_of dense_results) i"

definition doc_lookup :: "document list \<Rightarrow> string \<rightharpoonup> document" where
  "doc_lookup docs = dict_of (map (\<lambda>doc. (doc_id doc, doc)) docs)"

definition found :: "document list \<Rightarrow> string \<times> real \<Rightarrow> (document \<times> real) option" where
  "found docs p =
     (case p of (i, score) \<Rightarrow> map_option (\<lambda>doc. (doc, score)) (doc_lookup docs i))"

definition hybrid_rerank ::
  "(string list \<Rightarrow> string list) \<Rightarrow> document list \<Rightarrow> (nat \<times> real) list
     \<Rightarrow> (string \<times> real) list \<Rightarrow> int \<Rightarrow> real \<Rightarrow> retrieval_result" where
  "hybrid_rerank iter docs bm25_results dense_results top_k bm25_weight =
     (let combined_scores =
            map (\<lambda>i. (i, combined_score docs bm25_results dense_results bm25_weight i))
                (all_doc_ids iter docs bm25_results dense_results);
          sorted_docs = py_take top_k (sort_desc combined_scores)
      in List.map_filter (found docs) sorted_docs)"

text \<open>\<open>retrieve\<close>: the guard, the two passes with \<open>2 * top_k\<close> candidates, the fusion.\<close>

definition retrieve ::
  "('idx, 'coll) libs \<Rightarrow> ('idx, 'coll) retriever \<Rightarrow> string \<Rightarrow> int \<Rightarrow> real
     \<Rightarrow> error + retrieval_result" where
  "retrieve L s q top_k bm25_weight =
     (case (bm25 s, embedding_model s) of
        (Some idx, Some model) \<Rightarrow>
          (let bm25_scores = bm25_retrieve L idx q (top_k * 2)
           in case dense_retrieve L s q (top_k * 2) of
                Inl e \<Rightarrow> Inl e
              | Inr dense_results \<Rightarrow>
                  Inr (hybrid_rerank (set_iter L) (documents s) bm25_scores dense_results
                         top_k bm25_weight))
      | _ \<Rightarrow> Inr [])"




section \<open>Multi-hop retrieval\<close>

text \<open>\<open>_enhance_query_with_context\<close>.\<close>

definition relevant_ctx :: "string \<Rightarrow> string \<Rightarrow> bool" where
  "relevant_ctx question_type ctx =
     (if question_type = ''package'' \<and>
         (\<exists>word \<in> set [''package'', ''library'']. str_in word (lower ctx)) then True
      else if question_type = ''function'' \<and>
         (\<exists>word \<in> set [''function'', ''method'']. str_in word (lower ctx)) then True
      else if question_type = ''concept'' then True
      else False)"

definition enhance_query_with_context :: "string \<Rightarrow> string list \<Rightarrow> string \<Rightarrow> string" where
  "enhance_query_with_context q ctxs question_type =
     (if ctxs = [] then q
      else (let relevant_context =
                  filter (relevant_ctx question_type) (drop (length ctxs - 3) ctxs)
            in if relevant_context \<noteq> []
               then q @ '' (considering: '' @ join '', '' relevant_context @ '')''
               else q))"

text \<open>
  \<open>_targeted_retrieve\<close>: the retriever is called with twice the number of documents
  wanted (and its default weight); each score gets its bonus; the list is re-sorted and cut.
\<close>

definition type_bonus :: "string \<Rightarrow> document \<Rightarrow> real" where
  "type_bonus question_type doc =
     (let doc_type = meta_get doc ''type'' [];
          doc_task = meta_get doc ''task'' [];
          b = (if question_type = ''package'' \<and>
                  doc_type \<in> set [''package_description'', ''task_view''] then 0.2
               else if question_type = ''function'' \<and>
                  doc_type \<in> set [''man_page'', ''function''] then 0.2
               else if question_type = ''concept'' \<and>
                  doc_type \<in> set [''vignette'', ''r_extensions''] then 0.15
               else if question_type = ''example'' \<and>
                  doc_type \<in> set [''vignette'', ''man_page''] then 0.1
               else 0)
      in if question_type \<in> set [''function'', ''concept''] \<and>
            doc_task \<in> set [''statistical_modeling'', ''data_visualization'']
         then b + 0.1 else b)"

definition targeted_retrieve ::
  "(string \<Rightarrow> int \<Rightarrow> error + retrieval_result) \<Rightarrow> string \<Rightarrow> string \<Rightarrow> int
     \<Rightarrow> error + retrieval_result" where
  "targeted_retrieve retrieve_fn q question_type max_docs =
     (case retrieve_fn q (max_docs * 2) of
        Inl e \<Rightarrow> Inl e
      | Inr results \<Rightarrow>
          Inr (py_take max_docs
                 (sort_desc (map (\<lambda>(doc, score). (doc, score + type_bonus question_type doc))
                                 results))))"

text \<open>\<open>_extract_context_info\<close>: the tags of the first two results.\<close>

definition tag_of :: "string \<Rightarrow> document \<Rightarrow> string list" where
  "tag_of key doc =
     (case map_of (metadata doc) key of
        None \<Rightarrow> []
      | Some v \<Rightarrow> [key @ '':'' @ v])"

definition doc_tags :: "document \<Rightarrow> string list" where
  "doc_tags doc = tag_of ''package'' doc @ tag_of ''function'' doc @ tag_of ''task'' doc"

definition extract_context_info :: "retrieval_result \<Rightarrow> string list" where
  "extract_context_info results = concat (map (\<lambda>(doc, score). doc_tags doc) (py_take 2 results))"

text \<open>
  \<open>multi_hop_retrieve\<close>: one pass over the sub-questions in the order of the list. The
  state of the loop is the dictionary of results (in insertion order), the running
  context, and the queries sent to the retriever so far, which make the order of the
  hops observable. An exception of the retriever ends the loop.
\<close>

record hop_state =
  retrieval_results :: "(string \<times> retrieval_result) list"
  context_from_previous :: "string list"
  issued :: "string list"

definition hop_init :: hop_state where
  "hop_init = \<lparr>retrieval_results = [], context_from_previous = [], issued = []\<rparr>"

fun multi_hop_loop ::
  "(string \<Rightarrow> int \<Rightarrow> error + retrieval_result) \<Rightarrow> int \<Rightarrow> sub_question list \<Rightarrow> hop_state
     \<Rightarrow> error + hop_state" where
  "multi_hop_loop retrieve_fn max_docs [] st = Inr st"
| "multi_hop_loop retrieve_fn max_docs (sub_q # rest) st =
     (let enhanced_query =
            enhance_query_with_context (question sub_q) (context_from_previous st) (qtype sub_q)
      in case targeted_retrieve retrieve_fn enhanced_query (qtype sub_q) max_docs of
           Inl e \<Rightarrow> Inl e
         | Inr results \<Rightarrow>
             multi_hop_loop retrieve_fn max_docs rest
               \<lparr>retrieval_results = AList.update (question sub_q) results (retrieval_results st),
                context_from_previous =
                  context_from_previous st @
                    (if results \<noteq> [] then extract_context_info results else []),
                issued = issued st @ [enhanced_query]\<rparr>)"

definition multi_hop_retrieve ::
  "(string \<Rightarrow> int \<Rightarrow> error + retrieval_result) \<Rightarrow> sub_question list \<Rightarrow> int
     \<Rightarrow> error + (string \<times> retrieval_result) list" where
  "multi_hop_retrieve retrieve_fn sub_questions max_docs =
     (case multi_hop_loop retrieve_fn max_docs sub_questions hop_init of
        Inl e \<Rightarrow> Inl e
      | Inr st \<Rightarrow> Inr (retrieval_results st))"

section \<open>Validation of the synthesized answer\<close>

text \<open>
  \<open>re.findall(r'```r\n(.*?)\n```', text, re.DOTALL)\<close>: from the left, the next opening
  fence, the shortest text up to a closing fence, and on from behind that fence.
\<close>

definition fence_open :: string where
  "fence_open = [CHR 0x60, CHR 0x60, CHR 0x60, CHR ''r'', newline]"

definition fence_close :: string where
  "fence_close = [newline, CHR 0x60, CHR 0x60, CHR 0x60]"

fun find_close :: "string \<Rightarrow> (string \<times> string) option" where
  "find_close [] = None"
| "find_close (c # cs) =
     (if prefix fence_close (c # cs) then Some ([], drop 4 (c # cs))
      else map_option (\<lambda>(cap, rest). (c # cap, rest)) (find_close cs))"

lemma find_close_shorter: "find_close s = Some (cap, rest) \<Longrightarrow> length rest < length s"
  by (induction s arbitrary: cap) (auto split: if_splits)

function code_blocks :: "string \<Rightarrow> string list" where
  "code_blocks s =
     (if s = [] then []
      else if prefix fence_open s
      then (case find_close (drop 5 s) of
              None \<Rightarrow> code_blocks (tl s)
            | Some (cap, rest) \<Rightarrow> cap # code_blocks rest)
      else code_blocks (tl s))"
  by pat_completeness auto
termination
proof (relation "measure length")
  show "wf (measure length)" by simp
next
  fix s :: string
  assume "s \<noteq> []"
  then show "(tl s, s) \<in> measure length" by (cases s) simp_all
next
  fix s x2 x y :: string and p
  assume "find_close (drop 5 s) = Some p" and "(x, y) = p"
  then have "length y < length (drop 5 s)"
    using find_close_shorter [of "drop 5 s" x y] by simp
  then show "(y, s) \<in> measure length" by simp
next
  fix s :: string
  assume "s \<noteq> []"
  then show "(tl s, s) \<in> measure length" by (cases s) simp_all
qed

declare code_blocks.simps [simp del]

text \<open>\<open>_validate_code_block\<close>: the note for one block, if any.\<close>

definition validate_code_block :: "string \<Rightarrow> string option" where
  "validate_code_block code =
     (let code_lower = lower code;
          uncommon =
            (if str_in ''library('' code_lower \<and> \<not> str_in ''install.packages('' code_lower
             then List.find (\<lambda>pkg. str_in pkg code_lower) [''obscurepackage'', ''rarepkg'']
             else None)
      in case uncommon of
           Some pkg \<Rightarrow> Some (''Package '' @ [CHR 0x27] @ pkg @ [CHR 0x27] @ '' may not be widely available'')
         | None \<Rightarrow>
             (case List.find (\<lambda>pattern. str_in pattern code_lower)
                     [''system('', ''unlink('', ''file.remove(''] of
                Some pattern \<Rightarrow> Some (''Contains potentially dangerous operation: '' @ pattern)
              | None \<Rightarrow> None))"

text \<open>\<open>_validate_workflow\<close>: blocks of fewer than two lines are skipped.\<close>

definition block_note :: "nat \<times> string \<Rightarrow> string option" where
  "block_note ib =
     (case ib of (i, code_block) \<Rightarrow>
        if length (split_char newline (strip code_block)) < 2 then None
        else (case validate_code_block code_block of
                None \<Rightarrow> None
              | Some validation_result \<Rightarrow>
                  if validation_result = [] then None
                  else Some (''Code block '' @ str_of_nat (i + 1) @ '': '' @ validation_result)))"

definition validation_notes :: "string \<Rightarrow> string list" where
  "validation_notes workflow_response =
     List.map_filter block_note (enumerate 0 (code_blocks workflow_response))"

definition notes_header :: string where
  "notes_header = [newline, newline] @ ''**Validation Notes:**'' @ [newline]"

definition validate_workflow :: "string \<Rightarrow> string" where
  "validate_workflow workflow_response =
     (let notes = validation_notes workflow_response
      in if notes \<noteq> [] then workflow_response @ notes_header @ join [newline] notes
         else workflow_response)"

section \<open>Examples\<close>

text \<open>
  The inputs of the examples. Two parsers: one that knows one text, the empty array, and
  refuses every other one; one that also knows an array of two sub-questions and an array
  that holds a number. One answer of the language model that carries the array of two
  sub-questions. Two documents, retrievers that always find the first, both, or nothing;
  a run of two sub-questions; answers of the language model with blocks of R code.
\<close>

definition loads_empty_array :: "string \<Rightarrow> jitem list option" where
  "loads_empty_array s = (if s = ''[]'' then Some [] else None)"

definition two_objects :: string where
  \<open>two_objects =
     ''[{"question": "b", "type": "package", "priority": 2}, '' @
     ''{"question": "a", "type": "function", "priority": 1}]''\<close>

definition loads_example :: "string \<Rightarrow> jitem list option" where
  "loads_example s =
     (if s = ''[]'' then Some []
      else if s = ''[1]'' then Some [JOther]
      else if s = two_objects
      then Some [JObject (mk_sub_question ''b'' ''package'' 2),
                 JObject (mk_sub_question ''a'' ''function'' 1)]
      else None)"

definition example_answer :: string where
  "example_answer = ''Sub-questions: '' @ two_objects @ '' (two)''"

definition example_doc :: document where
  "example_doc =
     \<lparr>content = ''Fitting Linear Models'',
      metadata = [(''package'', ''stats''), (''function'', ''lm''),
                  (''task'', ''statistical_modeling'')],
      doc_id = ''stats::lm''\<rparr>"

definition plot_doc :: document where
  "plot_doc =
     \<lparr>content = ''Create a new ggplot'',
      metadata = [(''type'', ''man_page''), (''task'', ''data_visualization''),
                  (''package'', ''ggplot2'')],
      doc_id = ''ggplot2::ggplot''\<rparr>"

definition finds_example :: "string \<Rightarrow> int \<Rightarrow> error + retrieval_result" where
  "finds_example q k = Inr [(example_doc, 1)]"

definition finds_both :: "string \<Rightarrow> int \<Rightarrow> error + retrieval_result" where
  "finds_both q k = Inr [(example_doc, 1), (plot_doc, 1 / 2), (example_doc, 1 / 4)]"

definition finds_nothing :: "string \<Rightarrow> int \<Rightarrow> error + retrieval_result" where
  "finds_nothing q k = Inr []"

definition two_hops :: "sub_question list" where
  "two_hops = [mk_sub_question ''how to fit'' ''general'' 2,
               mk_sub_question ''which package'' ''concept'' 1]"

text \<open>
  A stand-in for the libraries, for the examples only: an index that is the tokenized
  corpus and refuses an empty one, a score that counts the tokens of a document that are
  in the query, a stable \<open>argsort\<close>, and a set that is visited in the order given. The
  vector store refuses what the real one refuses: an empty batch, a document with empty
  metadata, an id twice in one batch, and a query for less than one result. It keeps the
  first document stored under an id, measures the distance of two texts by their lengths,
  and answers with fewer results when it holds fewer than are asked for.
\<close>

definition example_libs :: "(string list list, document list) libs" where
  "example_libs =
     \<lparr>bm25_okapi = (\<lambda>texts. if texts = [] then None else Some texts),
      get_scores = (\<lambda>idx tokens.
         map (\<lambda>doc_tokens. real (length (filter (\<lambda>t. t \<in> set tokens) doc_tokens))) idx),
      argsort = (\<lambda>scores. map snd (sort_key fst (zip scores [0..<length scores]))),
      create_collection = [],
      collection_add = (\<lambda>coll docs.
         if docs = [] \<or> (\<exists>d \<in> set docs. metadata d = []) \<or> \<not> distinct (map doc_id docs)
         then None
         else Some (coll @ filter (\<lambda>d. doc_id d \<notin> doc_id ` set coll) docs)),
      collection_query = (\<lambda>coll q k.
         if k \<le> 0 then None
         else Some (py_take k
           (sort_key snd
              (map (\<lambda>d. (doc_id d, (real (length (content d)) - real (length q))\<^sup>2)) coll)))),
      set_iter = (\<lambda>ids. ids)\<rparr>"

text \<open>The retriever as its constructor leaves it, and with the embedding model loaded.\<close>

definition new_retriever :: "(string list list, document list) retriever" where
  "new_retriever = \<lparr>bm25 = None, documents = [], embedding_model = None, collection = None\<rparr>"

definition loaded_retriever :: "(string list list, document list) retriever" where
  "loaded_retriever = new_retriever\<lparr>embedding_model := Some ''all-MiniLM-L6-v2''\<rparr>"

text \<open>
  Three documents, the first and the last under the same id, and the corpus after the
  first two are added to the loaded retriever and then the third.
\<close>

definition doc_x1 :: document where
  "doc_x1 = \<lparr>content = ''alpha alpha alpha'', metadata = [(''type'', ''man_page'')],
             doc_id = ''x''\<rparr>"

definition doc_y :: document where
  "doc_y = \<lparr>content = ''alpha alpha'', metadata = [(''type'', ''man_page'')], doc_id = ''y''\<rparr>"

definition doc_x2 :: document where
  "doc_x2 = \<lparr>content = ''alpha gamma'', metadata = [(''type'', ''vignette'')], doc_id = ''x''\<rparr>"

definition duplicate_corpus :: "(string list list, document list) retriever" where
  "duplicate_corpus =
     fst (add_documents example_libs
            (fst (add_documents example_libs loaded_retriever [doc_x1, doc_y])) [doc_x2])"

text \<open>
  Two documents for a batch that is added once and twice: for the query \<open>alpha\<close> the
  first is the better one by the tokens and the second by the distance.
\<close>

definition doc_p :: document where
  "doc_p = \<lparr>content = ''alpha alpha'', metadata = [(''type'', ''man_page'')], doc_id = ''p''\<rparr>"

definition doc_q :: document where
  "doc_q = \<lparr>content = ''alpha'', metadata = [(''type'', ''man_page'')], doc_id = ''q''\<rparr>"

definition added_once :: "(string list list, document list) retriever" where
  "added_once = fst (add_documents example_libs loaded_retriever [doc_p, doc_q])"

definition added_twice :: "(string list list, document list) retriever" where
  "added_twice = fst (add_documents example_libs added_once [doc_p, doc_q])"


definition doc_a :: document where
  "doc_a = \<lparr>content = ''regression fit'', metadata = [(''type'', ''man_page'')],
            doc_id = ''a''\<rparr>"



text \<open>
  A retriever to which a document is added before the embedding model is loaded (the
  addition raises after the lexical index is built), and which loads the model afterwards.
\<close>

definition no_collection :: "(string list list, document list) retriever" where
  "no_collection =
     (fst (add_documents example_libs new_retriever [doc_a]))
       \<lparr>embedding_model := Some ''all-MiniLM-L6-v2''\<rparr>"

definition one_line_answer :: string where
  "one_line_answer = fence_open @ ''system(x)'' @ fence_close"

definition two_line_answer :: string where
  "two_line_answer =
     ''Run:'' @ [newline] @ fence_open @ ''x <- 1'' @ [newline] @ ''unlink(x)'' @ fence_close"

definition mixed_answer :: string where
  "mixed_answer =
     fence_open @ ''system(x)'' @ fence_close @ [newline] @
     fence_open @ ''x <- 1'' @ [newline] @ ''unlink(x)'' @ fence_close"

section \<open>Properties of the decomposition\<close>

lemma the_objects_length: "the_objects items = Some qs \<Longrightarrow> length qs = length items"
  by (induction items arbitrary: qs rule: the_objects.induct) auto

lemma the_objects_map: "the_objects (map JObject qs) = Some qs"
  by (induction qs) simp_all

lemma the_objects_other: "JOther \<in> set items \<Longrightarrow> the_objects items = None"
  by (induction items rule: the_objects.induct) auto

lemma sort_key_Nil_iff: "sort_key f xs = [] \<longleftrightarrow> xs = []"
  by (metis length_sort list.size(3) length_0_conv)

lemma py_rfind_succ: "py_rfind c s + 1 \<noteq> - 1"
  using length_takeWhile_le [of "\<lambda>x. x \<noteq> c" "rev s"]
  by (simp add: py_rfind_def)

lemma decompose_query_Some:
  "decompose_query J (Some resp) q =
     (if py_find CHR ''['' resp = - 1 then fallback_decomposition q
      else (case J (json_str resp) of
              None \<Rightarrow> fallback_decomposition q
            | Some items \<Rightarrow>
                (case the_objects items of
                   None \<Rightarrow> fallback_decomposition q
                 | Some sub_questions \<Rightarrow> sort_key priority_key sub_questions)))"
  using py_rfind_succ [of "CHR '']''" resp]
  by (simp add: decompose_query_def json_str_def Let_def)

lemma decompose_query_empty:
  "decompose_query J r q = [] \<longleftrightarrow>
     (\<exists>resp. r = Some resp \<and> py_find CHR ''['' resp \<noteq> - 1 \<and> J (json_str resp) = Some [])"
proof (cases r)
  case None
  then show ?thesis
    using fallback_decomposition_nonempty [of q] by (simp add: decompose_query_def)
next
  case (Some resp)
  show ?thesis
  proof (cases "py_find CHR ''['' resp = - 1")
    case True
    then show ?thesis
      using Some fallback_decomposition_nonempty [of q] by (simp add: decompose_query_Some)
  next
    case False
    show ?thesis
    proof (cases "J (json_str resp)")
      case None
      then show ?thesis
        using Some False fallback_decomposition_nonempty [of q]
        by (simp add: decompose_query_Some)
    next
      case items: (Some items)
      show ?thesis
      proof (cases "the_objects items")
        case None
        then have "items \<noteq> []" by auto
        then show ?thesis
          using Some False items None fallback_decomposition_nonempty [of q]
          by (simp add: decompose_query_Some)
      next
        case qs: (Some qs)
        have "qs = [] \<longleftrightarrow> items = []"
          using the_objects_length [OF qs] by auto
        then show ?thesis
          using Some False items qs by (simp add: decompose_query_Some sort_key_Nil_iff)
      qed
    qed
  qed
qed

text \<open>
  C4, as the code has it. The fallback never returns an empty list, and \<open>decompose_query\<close>
  returns the list of the fallback when the call of the language model raises, when the
  answer holds no \<open>[\<close>, when the text from the first \<open>[\<close> to the last \<open>]\<close> does not
  parse, and when the parsed array holds an element that is not an object. When that text
  parses to an array of objects, \<open>decompose_query\<close> returns these objects sorted by
  priority (a missing priority counting as 3, objects of the same priority in the order of
  the array), and nothing of the fallback. So the result is the empty list in exactly one
  case: the text parses to the empty array.
\<close>

theorem decompose_query_fallback_or_sorted:
  "fallback_decomposition q \<noteq> [] \<and>
   decompose_query J None q = fallback_decomposition q \<and>
   (py_find CHR ''['' resp = - 1 \<longrightarrow>
      decompose_query J (Some resp) q = fallback_decomposition q) \<and>
   (py_find CHR ''['' resp \<noteq> - 1 \<and> J (json_str resp) = None \<longrightarrow>
      decompose_query J (Some resp) q = fallback_decomposition q) \<and>
   (py_find CHR ''['' resp \<noteq> - 1 \<and> J (json_str resp) = Some items \<and> JOther \<in> set items \<longrightarrow>
      decompose_query J (Some resp) q = fallback_decomposition q) \<and>
   (py_find CHR ''['' resp \<noteq> - 1 \<and> J (json_str resp) = Some (map JObject qs) \<longrightarrow>
      decompose_query J (Some resp) q = sort_key priority_key qs \<and>
      sorted (map priority_key (decompose_query J (Some resp) q)) \<and>
      mset (decompose_query J (Some resp) q) = mset qs \<and>
      (\<forall>k. filter (\<lambda>x. priority_key x = k) (decompose_query J (Some resp) q) =
            filter (\<lambda>x. priority_key x = k) qs)) \<and>
   (decompose_query J r q = [] \<longleftrightarrow>
      (\<exists>resp. r = Some resp \<and> py_find CHR ''['' resp \<noteq> - 1 \<and> J (json_str resp) = Some []))"
proof -
  have a: "fallback_decomposition q \<noteq> []"
    by (rule fallback_decomposition_nonempty)
  have b: "decompose_query J None q = fallback_decomposition q"
    by (simp add: decompose_query_def)
  have c: "py_find CHR ''['' resp = - 1 \<longrightarrow>
      decompose_query J (Some resp) q = fallback_decomposition q"
    by (simp add: decompose_query_Some)
  have d: "py_find CHR ''['' resp \<noteq> - 1 \<and> J (json_str resp) = None \<longrightarrow>
      decompose_query J (Some resp) q = fallback_decomposition q"
    by (simp add: decompose_query_Some)
  have e: "py_find CHR ''['' resp \<noteq> - 1 \<and> J (json_str resp) = Some items \<and> JOther \<in> set items \<longrightarrow>
      decompose_query J (Some resp) q = fallback_decomposition q"
    by (simp add: decompose_query_Some the_objects_other)
  have f: "py_find CHR ''['' resp \<noteq> - 1 \<and> J (json_str resp) = Some (map JObject qs) \<longrightarrow>
      decompose_query J (Some resp) q = sort_key priority_key qs \<and>
      sorted (map priority_key (decompose_query J (Some resp) q)) \<and>
      mset (decompose_query J (Some resp) q) = mset qs \<and>
      (\<forall>k. filter (\<lambda>x. priority_key x = k) (decompose_query J (Some resp) q) =
            filter (\<lambda>x. priority_key x = k) qs)"
  proof
    assume h: "py_find CHR ''['' resp \<noteq> - 1 \<and> J (json_str resp) = Some (map JObject qs)"
    then have eq: "decompose_query J (Some resp) q = sort_key priority_key qs"
      by (simp add: decompose_query_Some the_objects_map)
    show "decompose_query J (Some resp) q = sort_key priority_key qs \<and>
      sorted (map priority_key (decompose_query J (Some resp) q)) \<and>
      mset (decompose_query J (Some resp) q) = mset qs \<and>
      (\<forall>k. filter (\<lambda>x. priority_key x = k) (decompose_query J (Some resp) q) =
            filter (\<lambda>x. priority_key x = k) qs)"
      unfolding eq by (simp add: sort_key_stable)
  qed
  have g: "decompose_query J r q = [] \<longleftrightarrow>
      (\<exists>resp. r = Some resp \<and> py_find CHR ''['' resp \<noteq> - 1 \<and> J (json_str resp) = Some [])"
    by (rule decompose_query_empty)
  show ?thesis using a b c d e f g by (intro conjI)
qed

text \<open>
  The four kinds of answer at the query \<open>how to plot data\<close>: the text that the client of
  the language model returns when the call fails, which holds no \<open>[\<close>; a text in
  brackets that does not parse; an array that holds a number; an array of two objects,
  which come back sorted by priority.
\<close>

lemma example_answer_json_str: "json_str example_answer = two_objects"
  by code_simp

theorem decompose_query_fallback_or_sorted_witness:
  "decompose_query loads_example (Some ''Sorry, I encountered an error: timeout'')
      ''how to plot data'' = fallback_decomposition ''how to plot data'' \<and>
   decompose_query loads_example (Some ''Try [this]'') ''how to plot data'' =
      fallback_decomposition ''how to plot data'' \<and>
   decompose_query loads_example (Some ''So [1] it is'') ''how to plot data'' =
      fallback_decomposition ''how to plot data'' \<and>
   decompose_query loads_example (Some example_answer) ''how to plot data'' =
      [mk_sub_question ''a'' ''function'' 1, mk_sub_question ''b'' ''package'' 2] \<and>
   fallback_decomposition ''how to plot data'' = plot_rule"
proof -
  let ?q = "''how to plot data''"
  have a: "decompose_query loads_example (Some ''Sorry, I encountered an error: timeout'') ?q =
      fallback_decomposition ?q"
  proof -
    have "py_find CHR ''['' ''Sorry, I encountered an error: timeout'' = - 1"
      by (simp add: py_find_def)
    with decompose_query_fallback_or_sorted
      [of ?q loads_example "''Sorry, I encountered an error: timeout''"]
    show ?thesis by blast
  qed
  have b: "decompose_query loads_example (Some ''Try [this]'') ?q = fallback_decomposition ?q"
  proof -
    have "py_find CHR ''['' ''Try [this]'' \<noteq> - 1 \<and> loads_example (json_str ''Try [this]'') = None"
      by code_simp
    with decompose_query_fallback_or_sorted [of ?q loads_example "''Try [this]''"]
    show ?thesis by blast
  qed
  have c: "decompose_query loads_example (Some ''So [1] it is'') ?q = fallback_decomposition ?q"
  proof -
    have "py_find CHR ''['' ''So [1] it is'' \<noteq> - 1 \<and>
        loads_example (json_str ''So [1] it is'') = Some [JOther] \<and> JOther \<in> set [JOther]"
      by code_simp
    with decompose_query_fallback_or_sorted [of ?q loads_example "''So [1] it is''" "[JOther]"]
    show ?thesis by blast
  qed
  have d: "decompose_query loads_example (Some example_answer) ?q =
      [mk_sub_question ''a'' ''function'' 1, mk_sub_question ''b'' ''package'' 2]"
  proof -
    have "py_find CHR ''['' example_answer \<noteq> - 1"
      by code_simp
    moreover have "loads_example (json_str example_answer) =
        Some (map JObject [mk_sub_question ''b'' ''package'' 2,
                           mk_sub_question ''a'' ''function'' 1])"
      by (simp add: example_answer_json_str loads_example_def two_objects_def)
    ultimately have "decompose_query loads_example (Some example_answer) ?q =
        sort_key priority_key [mk_sub_question ''b'' ''package'' 2,
                               mk_sub_question ''a'' ''function'' 1]"
      using decompose_query_fallback_or_sorted [of ?q loads_example example_answer _
          "[mk_sub_question ''b'' ''package'' 2, mk_sub_question ''a'' ''function'' 1]"]
      by blast
    then show ?thesis by (simp add: priority_key_def mk_sub_question_def)
  qed
  have e: "fallback_decomposition ?q = plot_rule"
    by (simp add: fallback_decomposition_def Let_def lower_def lower_char_def plot_rule_def)
  show ?thesis using a b c d e by (intro conjI)
qed

text \<open>
  C4, as the claim states it, fails: the query is not empty, the model answers \<open>[]\<close>,
  and the list of sub-questions is empty.
\<close>

theorem decompose_query_empty_array_counterexample:
  "decompose_query loads_empty_array (Some ''[]'') ''how to plot data'' = []"
  by (simp add: decompose_query_def loads_empty_array_def py_find_def py_rfind_def
      py_slice_def py_take_def)

text \<open>
  C8 at the query \<open>linear regression plot\<close> with no language model: two rules of the
  fallback match, each adds its sub-questions in its own order, and the priorities of the
  list returned are 1, 2, 2, 1, 2, which is not ascending.
\<close>

theorem decompose_query_fallback_priorities:
  "map priority (decompose_query loads_empty_array None ''linear regression plot'') =
     [Some 1, Some 2, Some 2, Some 1, Some 2]"
  by (simp add: decompose_query_def fallback_decomposition_def Let_def lower_def
      lower_char_def linear_regression_rule_def plot_rule_def mk_sub_question_def)

section \<open>Properties of multi-hop retrieval\<close>

lemma enhance_prefix: "prefix q (enhance_query_with_context q ctxs t)"
  by (simp add: enhance_query_with_context_def Let_def)

lemma py_take_2_eq: "py_take 2 xs = take 2 xs"
  by (simp add: py_take_def)

lemma extract_context_info_Nil: "extract_context_info [] = []"
  by (simp add: extract_context_info_def py_take_def)

lemma multi_hop_loop_Cons:
  assumes "multi_hop_loop R m (q # qs) st0 = Inr st"
  shows "\<exists>r. targeted_retrieve R
               (enhance_query_with_context (question q) (context_from_previous st0) (qtype q))
               (qtype q) m = Inr r \<and>
             multi_hop_loop R m qs
               \<lparr>retrieval_results = AList.update (question q) r (retrieval_results st0),
                context_from_previous = context_from_previous st0 @ extract_context_info r,
                issued = issued st0 @
                  [enhance_query_with_context (question q) (context_from_previous st0)
                     (qtype q)]\<rparr> = Inr st"
proof (cases "targeted_retrieve R
               (enhance_query_with_context (question q) (context_from_previous st0) (qtype q))
               (qtype q) m")
  case (Inl e)
  then show ?thesis using assms by (simp add: Let_def)
next
  case (Inr r)
  have "(if r \<noteq> [] then extract_context_info r else []) = extract_context_info r"
    by (simp add: extract_context_info_Nil)
  then show ?thesis using assms Inr by (simp add: Let_def)
qed

lemma hop_step:
  assumes "multi_hop_loop R m [q] st = Inr st'"
  shows "\<exists>res. targeted_retrieve R
                (enhance_query_with_context (question q) (context_from_previous st) (qtype q))
                (qtype q) m = Inr res \<and>
             context_from_previous st' = context_from_previous st @ extract_context_info res"
proof -
  from multi_hop_loop_Cons [OF assms] obtain r where
    r: "targeted_retrieve R
          (enhance_query_with_context (question q) (context_from_previous st) (qtype q))
          (qtype q) m = Inr r" and
    s: "multi_hop_loop R m []
          \<lparr>retrieval_results = AList.update (question q) r (retrieval_results st),
           context_from_previous = context_from_previous st @ extract_context_info r,
           issued = issued st @
             [enhance_query_with_context (question q) (context_from_previous st)
                (qtype q)]\<rparr> = Inr st'"
    by blast
  from s have "context_from_previous st' = context_from_previous st @ extract_context_info r"
    by auto
  with r show ?thesis by blast
qed

text \<open>
  The run of the loop from any state: the results of the hops, one per sub-question in
  the order of the list; the query of each hop, which is its question enhanced with the
  context of the start followed by the tags of the results of the hops before it; the
  context at the end.
\<close>

lemma multi_hop_loop_trace:
  assumes "multi_hop_loop R m qs st0 = Inr st"
  shows "\<exists>rs. length rs = length qs \<and>
     length (issued st) = length (issued st0) + length qs \<and>
     take (length (issued st0)) (issued st) = issued st0 \<and>
     (\<forall>i<length qs.
        issued st ! (length (issued st0) + i) =
          enhance_query_with_context (question (qs ! i))
            (context_from_previous st0 @ concat (map extract_context_info (take i rs)))
            (qtype (qs ! i)) \<and>
        targeted_retrieve R (issued st ! (length (issued st0) + i)) (qtype (qs ! i)) m =
          Inr (rs ! i)) \<and>
     context_from_previous st =
       context_from_previous st0 @ concat (map extract_context_info rs)"
  using assms
proof (induction qs arbitrary: st0)
  case Nil
  then have "st = st0" by simp
  then show ?case by simp
next
  case (Cons q qs)
  let ?e0 = "enhance_query_with_context (question q) (context_from_previous st0) (qtype q)"
  let ?n0 = "length (issued st0)"
  from multi_hop_loop_Cons [OF Cons.prems] obtain r where
    r: "targeted_retrieve R ?e0 (qtype q) m = Inr r" and
    s: "multi_hop_loop R m qs
          \<lparr>retrieval_results = AList.update (question q) r (retrieval_results st0),
           context_from_previous = context_from_previous st0 @ extract_context_info r,
           issued = issued st0 @ [?e0]\<rparr> = Inr st"
    by blast
  define st1 where
    "st1 = \<lparr>retrieval_results = AList.update (question q) r (retrieval_results st0),
            context_from_previous = context_from_previous st0 @ extract_context_info r,
            issued = issued st0 @ [?e0]\<rparr>"
  have c1: "context_from_previous st1 = context_from_previous st0 @ extract_context_info r"
    and i1: "issued st1 = issued st0 @ [?e0]"
    by (simp_all add: st1_def)
  have n1: "length (issued st1) = Suc ?n0"
    by (simp add: i1)
  have "multi_hop_loop R m qs st1 = Inr st"
    using s by (simp only: st1_def)
  from Cons.IH [OF this] obtain rs where
    len: "length rs = length qs" and
    li: "length (issued st) = length (issued st1) + length qs" and
    tk: "take (length (issued st1)) (issued st) = issued st1" and
    each: "\<And>i. i < length qs \<Longrightarrow>
        issued st ! (length (issued st1) + i) =
          enhance_query_with_context (question (qs ! i))
            (context_from_previous st1 @ concat (map extract_context_info (take i rs)))
            (qtype (qs ! i)) \<and>
        targeted_retrieve R (issued st ! (length (issued st1) + i)) (qtype (qs ! i)) m =
          Inr (rs ! i)" and
    ctx: "context_from_previous st =
       context_from_previous st1 @ concat (map extract_context_info rs)"
    by blast
  have tk1: "take (Suc ?n0) (issued st) = issued st0 @ [?e0]"
    using tk by (simp add: i1)
  have "take ?n0 (take (Suc ?n0) (issued st)) = take ?n0 (issued st0 @ [?e0])"
    by (simp only: tk1)
  then have tk0: "take ?n0 (issued st) = issued st0"
    by simp
  have "take (Suc ?n0) (issued st) ! ?n0 = (issued st0 @ [?e0]) ! ?n0"
    by (simp only: tk1)
  then have at0: "issued st ! ?n0 = ?e0"
    by simp
  have a: "length (r # rs) = length (q # qs)"
    by (simp add: len)
  have b: "length (issued st) = ?n0 + length (q # qs)"
    using li by (simp add: n1)
  have d: "issued st ! (?n0 + i) =
          enhance_query_with_context (question ((q # qs) ! i))
            (context_from_previous st0 @ concat (map extract_context_info (take i (r # rs))))
            (qtype ((q # qs) ! i)) \<and>
        targeted_retrieve R (issued st ! (?n0 + i)) (qtype ((q # qs) ! i)) m =
          Inr ((r # rs) ! i)" if "i < length (q # qs)" for i
  proof (cases i)
    case 0
    then show ?thesis using at0 r by simp
  next
    case (Suc j)
    then have j: "j < length qs" using that by simp
    have eq: "?n0 + i = length (issued st1) + j"
      by (simp add: n1 Suc)
    have g1: "(q # qs) ! i = qs ! j" and g2: "(r # rs) ! i = rs ! j"
      by (simp_all add: Suc)
    have g3: "context_from_previous st0 @ concat (map extract_context_info (take i (r # rs))) =
        context_from_previous st1 @ concat (map extract_context_info (take j rs))"
      by (simp add: Suc c1)
    show ?thesis using each [OF j] unfolding eq g1 g2 g3 .
  qed
  have e: "context_from_previous st =
       context_from_previous st0 @ concat (map extract_context_info (r # rs))"
    using ctx by (simp add: c1)
  from a b tk0 d e show ?case by blast
qed

text \<open>
  C6, as the code has it. \<open>multi_hop_retrieve\<close> does not read the priorities: it handles
  the sub-questions in the order of the list it is given, one query to the retriever per
  sub-question. The query of hop \<open>i\<close> is the question of the \<open>i\<close>-th sub-question of the
  list, enhanced with the running context, and the running context at hop \<open>i\<close> is the
  tags extracted from the results of the hops \<open>0\<close> to \<open>i - 1\<close>, in this order: the tags
  of an earlier hop are before the later hop when its query is enhanced, and the results
  of a hop have no part in the query of that hop or of an earlier one. At the end the
  running context holds the tags of all hops.
\<close>

theorem multi_hop_list_order:
  assumes "multi_hop_loop R m qs hop_init = Inr st"
  shows "\<exists>rs. length rs = length qs \<and> length (issued st) = length qs \<and>
         (\<forall>i<length qs.
            issued st ! i =
              enhance_query_with_context (question (qs ! i))
                (concat (map extract_context_info (take i rs))) (qtype (qs ! i)) \<and>
            targeted_retrieve R (issued st ! i) (qtype (qs ! i)) m = Inr (rs ! i) \<and>
            prefix (question (qs ! i)) (issued st ! i)) \<and>
         context_from_previous st = concat (map extract_context_info rs) \<and>
         multi_hop_retrieve R qs m = Inr (retrieval_results st)"
proof -
  have i0: "issued hop_init = []" and c0: "context_from_previous hop_init = []"
    by (simp_all add: hop_init_def)
  from multi_hop_loop_trace [OF assms] obtain rs where
    len: "length rs = length qs" and
    li: "length (issued st) = length (issued hop_init) + length qs" and
    each: "\<And>i. i < length qs \<Longrightarrow>
        issued st ! (length (issued hop_init) + i) =
          enhance_query_with_context (question (qs ! i))
            (context_from_previous hop_init @ concat (map extract_context_info (take i rs)))
            (qtype (qs ! i)) \<and>
        targeted_retrieve R (issued st ! (length (issued hop_init) + i)) (qtype (qs ! i)) m =
          Inr (rs ! i)" and
    ctx: "context_from_previous st =
       context_from_previous hop_init @ concat (map extract_context_info rs)"
    by blast
  have a: "length (issued st) = length qs"
    using li by (simp add: i0)
  have b: "issued st ! i =
              enhance_query_with_context (question (qs ! i))
                (concat (map extract_context_info (take i rs))) (qtype (qs ! i)) \<and>
            targeted_retrieve R (issued st ! i) (qtype (qs ! i)) m = Inr (rs ! i) \<and>
            prefix (question (qs ! i)) (issued st ! i)" if "i < length qs" for i
  proof -
    have both: "issued st ! i =
              enhance_query_with_context (question (qs ! i))
                (concat (map extract_context_info (take i rs))) (qtype (qs ! i)) \<and>
            targeted_retrieve R (issued st ! i) (qtype (qs ! i)) m = Inr (rs ! i)"
      using each [OF that] unfolding i0 c0 list.size append_Nil add_0 .
    have e: "issued st ! i =
              enhance_query_with_context (question (qs ! i))
                (concat (map extract_context_info (take i rs))) (qtype (qs ! i))"
      using both by (rule conjunct1)
    have t: "targeted_retrieve R (issued st ! i) (qtype (qs ! i)) m = Inr (rs ! i)"
      using both by (rule conjunct2)
    have "prefix (question (qs ! i)) (issued st ! i)"
      unfolding e by (rule enhance_prefix)
    with e t show ?thesis by (intro conjI)
  qed
  have c: "context_from_previous st = concat (map extract_context_info rs)"
    using ctx by (simp add: c0)
  have d: "multi_hop_retrieve R qs m = Inr (retrieval_results st)"
    using assms by (simp add: multi_hop_retrieve_def)
  from len a b c d show ?thesis by blast
qed

text \<open>
  A run of two hops: the first hop finds the example document, and its tags are in the
  query of the second hop.
\<close>

lemma two_hops_run:
  "map_sum id issued (multi_hop_loop finds_example 1 two_hops hop_init) =
     Inr [''how to fit'',
          ''which package (considering: package:stats, function:lm, task:statistical_modeling)'']"
  by (simp add: two_hops_def mk_sub_question_def hop_init_def finds_example_def Let_def
      targeted_retrieve_def enhance_query_with_context_def relevant_ctx_def sort_desc_def
      py_take_def extract_context_info_def doc_tags_def tag_of_def example_doc_def)

lemma targeted_finds_example:
  "targeted_retrieve finds_example q ''general'' 1 = Inr [(example_doc, 1)]"
  by (simp add: targeted_retrieve_def finds_example_def sort_desc_def py_take_def
      type_bonus_def Let_def)

theorem multi_hop_list_order_witness:
  "\<exists>st rs. multi_hop_loop finds_example 1 two_hops hop_init = Inr st \<and>
        length rs = 2 \<and> rs ! 0 = [(example_doc, 1)] \<and>
        issued st ! 0 = ''how to fit'' \<and>
        issued st ! 1 =
          enhance_query_with_context ''which package'' (extract_context_info (rs ! 0))
            ''concept'' \<and>
        issued st ! 1 =
          ''which package (considering: package:stats, function:lm, task:statistical_modeling)'' \<and>
        context_from_previous st = extract_context_info (rs ! 0) @ extract_context_info (rs ! 1)"
proof -
  obtain st where st: "multi_hop_loop finds_example 1 two_hops hop_init = Inr st"
    using two_hops_run by (cases "multi_hop_loop finds_example 1 two_hops hop_init") auto
  have iss: "issued st =
     [''how to fit'',
      ''which package (considering: package:stats, function:lm, task:statistical_modeling)'']"
    using two_hops_run by (simp add: st)
  have l2: "length two_hops = 2" by (simp add: two_hops_def)
  have q0: "qtype (two_hops ! 0) = ''general''"
    and q1: "question (two_hops ! 1) = ''which package''" "qtype (two_hops ! 1) = ''concept''"
    by (simp_all add: two_hops_def mk_sub_question_def)
  from multi_hop_list_order [OF st] obtain rs where
    len: "length rs = length two_hops" and
    each: "\<And>i. i < length two_hops \<Longrightarrow>
            issued st ! i =
              enhance_query_with_context (question (two_hops ! i))
                (concat (map extract_context_info (take i rs))) (qtype (two_hops ! i)) \<and>
            targeted_retrieve finds_example (issued st ! i) (qtype (two_hops ! i)) 1 =
              Inr (rs ! i)" and
    ctx: "context_from_previous st = concat (map extract_context_info rs)"
    by blast
  have len2: "length rs = 2" using len l2 by simp
  then obtain r0 r1 where rs: "rs = [r0, r1]"
    by (cases rs; cases "tl rs") auto
  have z: "0 < length two_hops" "1 < length two_hops"
    by (simp_all add: l2)
  have t0: "targeted_retrieve finds_example (issued st ! 0) (qtype (two_hops ! 0)) 1 =
      Inr (rs ! 0)"
    using each [OF z(1)] by (rule conjunct2)
  have "Inr (rs ! 0) = (Inr [(example_doc, 1)] :: error + retrieval_result)"
    using t0 unfolding q0 targeted_finds_example by (rule sym)
  then have r0: "rs ! 0 = [(example_doc, 1)]"
    by simp
  have "issued st ! 1 =
      enhance_query_with_context (question (two_hops ! 1))
        (concat (map extract_context_info (take 1 rs))) (qtype (two_hops ! 1))"
    using each [OF z(2)] by (rule conjunct1)
  then have i1: "issued st ! 1 =
      enhance_query_with_context ''which package'' (extract_context_info (rs ! 0)) ''concept''"
    unfolding q1 by (simp add: rs)
  have c: "context_from_previous st = extract_context_info (rs ! 0) @ extract_context_info (rs ! 1)"
    using ctx by (simp add: rs)
  have "multi_hop_loop finds_example 1 two_hops hop_init = Inr st \<and>
        length rs = 2 \<and> rs ! 0 = [(example_doc, 1)] \<and>
        issued st ! 0 = ''how to fit'' \<and>
        issued st ! 1 =
          enhance_query_with_context ''which package'' (extract_context_info (rs ! 0))
            ''concept'' \<and>
        issued st ! 1 =
          ''which package (considering: package:stats, function:lm, task:statistical_modeling)'' \<and>
        context_from_previous st = extract_context_info (rs ! 0) @ extract_context_info (rs ! 1)"
    using st len2 r0 i1 c by (simp add: iss)
  then show ?thesis by blast
qed

text \<open>
  C6, as the claim states it, fails: with the priorities 2, 1, 3 in this order, the first
  query sent to the retriever is the one of priority 2.
\<close>

theorem multi_hop_priority_counterexample:
  "map_sum id issued
     (multi_hop_loop finds_nothing 5
        [mk_sub_question ''second'' ''general'' 2, mk_sub_question ''first'' ''general'' 1,
         mk_sub_question ''third'' ''general'' 3] hop_init) =
   Inr [''second'', ''first'', ''third'']"
  by (simp add: mk_sub_question_def hop_init_def finds_nothing_def Let_def
      targeted_retrieve_def enhance_query_with_context_def sort_desc_def py_take_def)

section \<open>Properties of the context tags\<close>

lemma tag_of_length: "length (tag_of key doc) \<le> 1"
  by (cases "map_of (metadata doc) key") (simp_all add: tag_of_def)

lemma doc_tags_length: "length (doc_tags doc) \<le> 3"
  using tag_of_length [of "''package''" doc] tag_of_length [of "''function''" doc]
    tag_of_length [of "''task''" doc]
  by (simp add: doc_tags_def)

lemma tag_of_option:
  "tag_of key doc =
     (case map_option (\<lambda>v. key @ '':'' @ v) (map_of (metadata doc) key) of
        None \<Rightarrow> [] | Some tag \<Rightarrow> [tag])"
  by (cases "map_of (metadata doc) key") (simp_all add: tag_of_def)

lemma map_filter_three:
  "List.map_filter f [a, b, c] =
     (case f a of None \<Rightarrow> [] | Some y \<Rightarrow> [y]) @
     (case f b of None \<Rightarrow> [] | Some y \<Rightarrow> [y]) @
     (case f c of None \<Rightarrow> [] | Some y \<Rightarrow> [y])"
  by (simp add: List.map_filter_def split: option.splits)

lemma doc_tags_keys:
  "doc_tags d =
     List.map_filter (\<lambda>key. map_option (\<lambda>v. key @ '':'' @ v) (map_of (metadata d) key))
       [''package'', ''function'', ''task'']"
  unfolding doc_tags_def map_filter_three tag_of_option by (rule refl)

lemma extract_context_info_two:
  "extract_context_info ((d1, s1) # (d2, s2) # rest) = doc_tags d1 @ doc_tags d2"
  by (simp add: extract_context_info_def py_take_def)

lemma extract_context_info_one: "extract_context_info [(d1, s1)] = doc_tags d1"
  by (simp add: extract_context_info_def py_take_def)

lemma extract_context_info_length: "length (extract_context_info results) \<le> 6"
proof (cases results)
  case Nil
  then show ?thesis by (simp add: extract_context_info_Nil)
next
  case (Cons p ps)
  obtain d1 s1 where p: "p = (d1, s1)" by (cases p)
  show ?thesis
  proof (cases ps)
    case Nil
    then show ?thesis
      using Cons p doc_tags_length [of d1] by (simp add: extract_context_info_one)
  next
    case (Cons p2 rest)
    obtain d2 s2 where p2: "p2 = (d2, s2)" by (cases p2)
    show ?thesis
      using \<open>results = p # ps\<close> Cons p p2 doc_tags_length [of d1] doc_tags_length [of d2]
      by (simp add: extract_context_info_two)
  qed
qed

text \<open>
  C7, as the code has it. The tags of a hop are the tags of its first result followed by
  the tags of its second result; results after the second give none. A result gives one
  tag for each of the keys \<open>package\<close>, \<open>function\<close> and \<open>task\<close> that its metadata has, in
  this order, the tag being the key, a colon and the value: up to three tags for a
  result, and at most six for a hop. The tags of a hop are appended to the running
  context, which the next hop reads.
\<close>

theorem extract_context_info_tags:
  "extract_context_info [] = [] \<and>
   extract_context_info [(d1, s1)] = doc_tags d1 \<and>
   extract_context_info ((d1, s1) # (d2, s2) # rest) = doc_tags d1 @ doc_tags d2 \<and>
   doc_tags d =
     List.map_filter (\<lambda>key. map_option (\<lambda>v. key @ '':'' @ v) (map_of (metadata d) key))
       [''package'', ''function'', ''task''] \<and>
   length (extract_context_info results) \<le> 6 \<and>
   (\<forall>st'. multi_hop_loop R m [q] st = Inr st' \<longrightarrow>
      (\<exists>res. targeted_retrieve R
                (enhance_query_with_context (question q) (context_from_previous st) (qtype q))
                (qtype q) m = Inr res \<and>
             context_from_previous st' = context_from_previous st @ extract_context_info res))"
proof -
  have step: "\<forall>st'. multi_hop_loop R m [q] st = Inr st' \<longrightarrow>
      (\<exists>res. targeted_retrieve R
                (enhance_query_with_context (question q) (context_from_previous st) (qtype q))
                (qtype q) m = Inr res \<and>
             context_from_previous st' = context_from_previous st @ extract_context_info res)"
    using hop_step by blast
  show ?thesis
    using extract_context_info_Nil extract_context_info_one [of d1 s1]
      extract_context_info_two [of d1 s1 d2 s2 rest] doc_tags_keys [of d]
      extract_context_info_length [of results] step
    by (intro conjI)
qed

text \<open>
  C7, as the claim states it, fails: one result whose metadata has the three keys gives
  three tags.
\<close>

theorem extract_context_info_counterexample:
  "extract_context_info [(example_doc, 1)] =
     [''package:stats'', ''function:lm'', ''task:statistical_modeling'']"
  by (simp add: extract_context_info_def py_take_def doc_tags_def tag_of_def example_doc_def)

text \<open>
  A hop with three results: the tags of the first two, five in all, are what the hop adds
  to the running context.
\<close>

lemma targeted_finds_both:
  "targeted_retrieve finds_both q ''general'' 2 = Inr [(example_doc, 1), (plot_doc, 1 / 2)]"
  by (simp add: targeted_retrieve_def finds_both_def sort_desc_def py_take_def
      type_bonus_def Let_def)

lemma one_hop_run:
  "\<exists>st'. multi_hop_loop finds_both 2 [mk_sub_question ''how to fit'' ''general'' 2] hop_init =
     Inr st'"
  by (simp add: mk_sub_question_def Let_def targeted_finds_both
      enhance_query_with_context_def hop_init_def)

theorem extract_context_info_tags_witness:
  "extract_context_info [(example_doc, 1), (plot_doc, 1 / 2), (example_doc, 1 / 4)] =
     [''package:stats'', ''function:lm'', ''task:statistical_modeling'',
      ''package:ggplot2'', ''task:data_visualization''] \<and>
   (\<exists>st'. multi_hop_loop finds_both 2 [mk_sub_question ''how to fit'' ''general'' 2] hop_init =
            Inr st' \<and>
          context_from_previous st' =
            [''package:stats'', ''function:lm'', ''task:statistical_modeling'',
             ''package:ggplot2'', ''task:data_visualization''])"
proof -
  let ?q = "mk_sub_question ''how to fit'' ''general'' 2"
  let ?tags = "[''package:stats'', ''function:lm'', ''task:statistical_modeling'',
      ''package:ggplot2'', ''task:data_visualization'']"
  note main = extract_context_info_tags
  have t1: "doc_tags example_doc =
      [''package:stats'', ''function:lm'', ''task:statistical_modeling'']"
  proof -
    have "doc_tags example_doc =
      List.map_filter (\<lambda>key. map_option (\<lambda>v. key @ '':'' @ v)
        (map_of (metadata example_doc) key)) [''package'', ''function'', ''task'']"
      using main [of example_doc 1 plot_doc "1 / 2" "[]" example_doc "[]" finds_both 2 ?q hop_init]
      by blast
    then show ?thesis by (simp add: example_doc_def List.map_filter_def)
  qed
  have t2: "doc_tags plot_doc = [''package:ggplot2'', ''task:data_visualization'']"
  proof -
    have "doc_tags plot_doc =
      List.map_filter (\<lambda>key. map_option (\<lambda>v. key @ '':'' @ v)
        (map_of (metadata plot_doc) key)) [''package'', ''function'', ''task'']"
      using main [of example_doc 1 plot_doc "1 / 2" "[]" plot_doc "[]" finds_both 2 ?q hop_init]
      by blast
    then show ?thesis by (simp add: plot_doc_def List.map_filter_def)
  qed
  have two: "extract_context_info ((example_doc, 1) # (plot_doc, 1 / 2) # rest) =
      doc_tags example_doc @ doc_tags plot_doc" for rest
    using main [of example_doc 1 plot_doc "1 / 2" rest example_doc "[]" finds_both 2 ?q hop_init]
    by blast
  have a: "extract_context_info [(example_doc, 1), (plot_doc, 1 / 2), (example_doc, 1 / 4)] = ?tags"
    by (simp add: two t1 t2)
  obtain st' where st': "multi_hop_loop finds_both 2 [?q] hop_init = Inr st'"
    using one_hop_run by blast
  have "\<exists>res. targeted_retrieve finds_both
                (enhance_query_with_context (question ?q) (context_from_previous hop_init)
                   (qtype ?q))
                (qtype ?q) 2 = Inr res \<and>
             context_from_previous st' = context_from_previous hop_init @ extract_context_info res"
    using main [of example_doc 1 plot_doc "1 / 2" "[]" example_doc "[]" finds_both 2 ?q hop_init]
      st'
    by blast
  then obtain res where
    r: "targeted_retrieve finds_both
          (enhance_query_with_context (question ?q) (context_from_previous hop_init) (qtype ?q))
          (qtype ?q) 2 = Inr res" and
    c: "context_from_previous st' = context_from_previous hop_init @ extract_context_info res"
    by blast
  have "qtype ?q = ''general''" by (simp add: mk_sub_question_def)
  then have "Inr res = (Inr [(example_doc, 1), (plot_doc, 1 / 2)] :: error + retrieval_result)"
    using r targeted_finds_both by simp
  then have res: "res = [(example_doc, 1), (plot_doc, 1 / 2)]"
    by simp
  have "context_from_previous st' = ?tags"
    unfolding c res by (simp add: two t1 t2 hop_init_def)
  with a st' show ?thesis by blast
qed

section \<open>Properties of the validation\<close>

lemma find_Some_if: "x \<in> set xs \<Longrightarrow> P x \<Longrightarrow> List.find P xs \<noteq> None"
  by (auto simp: find_None_iff)

lemma validate_code_block_dangerous:
  assumes "p \<in> set [''system('', ''unlink('', ''file.remove('']" and "str_in p (lower code)"
  shows "\<exists>msg. validate_code_block code = Some msg \<and> msg \<noteq> []"
proof -
  have "List.find (\<lambda>pattern. str_in pattern (lower code))
          [''system('', ''unlink('', ''file.remove(''] \<noteq> None"
    using assms by (intro find_Some_if [of p])
  then obtain pat where "List.find (\<lambda>pattern. str_in pattern (lower code))
          [''system('', ''unlink('', ''file.remove(''] = Some pat" by blast
  then show ?thesis
    by (simp add: validate_code_block_def Let_def split: option.splits)
qed

lemma map_filter_mem: "x \<in> set xs \<Longrightarrow> f x = Some y \<Longrightarrow> y \<in> set (List.map_filter f xs)"
  by (force simp: List.map_filter_def)

lemma map_filter_source:
  "y \<in> set (List.map_filter f xs) \<Longrightarrow> \<exists>x \<in> set xs. f x = Some y"
  by (auto simp: List.map_filter_def)

lemma map_filter_all_None: "(\<And>x. x \<in> set xs \<Longrightarrow> f x = None) \<Longrightarrow> List.map_filter f xs = []"
  by (simp add: List.map_filter_def filter_empty_conv)

lemma block_note_one_line:
  "length (split_char newline (strip b)) < 2 \<Longrightarrow> block_note (i, b) = None"
  by (simp add: block_note_def)

lemma block_note_Some:
  assumes "block_note (i, b) = Some n"
  shows "2 \<le> length (split_char newline (strip b)) \<and>
     (\<exists>msg. validate_code_block b = Some msg \<and> msg \<noteq> [] \<and>
        n = ''Code block '' @ str_of_nat (i + 1) @ '': '' @ msg)"
proof (cases "length (split_char newline (strip b)) < 2")
  case True
  then show ?thesis using assms by (simp add: block_note_def)
next
  case False
  show ?thesis
  proof (cases "validate_code_block b")
    case None
    then show ?thesis using assms False by (simp add: block_note_def)
  next
    case (Some msg)
    show ?thesis
    proof (cases "msg = []")
      case True
      then show ?thesis using assms False Some by (simp add: block_note_def)
    next
      case nonempty: False
      have "n = ''Code block '' @ str_of_nat (i + 1) @ '': '' @ msg"
        using assms False Some nonempty by (simp add: block_note_def)
      then show ?thesis using False Some nonempty by simp
    qed
  qed
qed

lemma validation_notes_source:
  assumes "n \<in> set (validation_notes s)"
  shows "\<exists>i<length (code_blocks s).
     2 \<le> length (split_char newline (strip (code_blocks s ! i))) \<and>
     (\<exists>msg. validate_code_block (code_blocks s ! i) = Some msg \<and> msg \<noteq> [] \<and>
        n = ''Code block '' @ str_of_nat (i + 1) @ '': '' @ msg)"
proof -
  from assms obtain ib where ib: "ib \<in> set (enumerate 0 (code_blocks s))"
    and bn: "block_note ib = Some n"
    unfolding validation_notes_def using map_filter_source by fastforce
  obtain i b where p: "ib = (i, b)" by (cases ib)
  have i: "i < length (code_blocks s)" and b: "b = code_blocks s ! i"
    using ib p by (simp_all add: in_set_enumerate_eq)
  from block_note_Some [of i b n] bn p
  have "2 \<le> length (split_char newline (strip b)) \<and>
     (\<exists>msg. validate_code_block b = Some msg \<and> msg \<noteq> [] \<and>
        n = ''Code block '' @ str_of_nat (i + 1) @ '': '' @ msg)"
    by simp
  then show ?thesis using i unfolding b by blast
qed

lemma validation_notes_one_line:
  assumes "\<forall>b \<in> set (code_blocks s). length (split_char newline (strip b)) < 2"
  shows "validation_notes s = []"
  unfolding validation_notes_def
proof (rule map_filter_all_None)
  fix ib assume m: "ib \<in> set (enumerate 0 (code_blocks s))"
  obtain i b where p: "ib = (i, b)" by (cases ib)
  have "b \<in> set (code_blocks s)"
    using m p by (auto simp: in_set_enumerate_eq)
  then have "length (split_char newline (strip b)) < 2"
    using assms by blast
  then show "block_note ib = None"
    unfolding p by (rule block_note_one_line)
qed

text \<open>
  C9, as the code has it. The answer is never changed or cut: the validated answer starts
  with it. Among the blocks fenced as R code, a block of at least two lines (after
  stripping) that contains \<open>system(\<close>, \<open>unlink(\<close> or \<open>file.remove(\<close>, in any case of
  the letters, gets a note under its number in the section of validation notes, which is
  then appended. A block of a single line is skipped, whatever it contains: it gets no
  note. So every note of the section belongs to a block of at least two lines, under the
  number of that block and with the message of its check, and an answer whose blocks all
  have a single line is returned as it is.
\<close>

theorem validate_workflow_advisory:
  "prefix s (validate_workflow s) \<and>
   (\<forall>i<length (code_blocks s).
      2 \<le> length (split_char newline (strip (code_blocks s ! i))) \<and>
      (\<exists>p \<in> set [''system('', ''unlink('', ''file.remove(''].
          str_in p (lower (code_blocks s ! i)))
      \<longrightarrow> (\<exists>msg. msg \<noteq> [] \<and>
             ''Code block '' @ str_of_nat (i + 1) @ '': '' @ msg \<in> set (validation_notes s) \<and>
             validate_workflow s = s @ notes_header @ join [newline] (validation_notes s))) \<and>
   (length (split_char newline (strip b)) < 2 \<longrightarrow> block_note (k, b) = None) \<and>
   (\<forall>n \<in> set (validation_notes s). \<exists>i<length (code_blocks s).
      2 \<le> length (split_char newline (strip (code_blocks s ! i))) \<and>
      (\<exists>msg. validate_code_block (code_blocks s ! i) = Some msg \<and> msg \<noteq> [] \<and>
         n = ''Code block '' @ str_of_nat (i + 1) @ '': '' @ msg)) \<and>
   ((\<forall>b \<in> set (code_blocks s). length (split_char newline (strip b)) < 2) \<longrightarrow>
      validation_notes s = [] \<and> validate_workflow s = s)"
proof -
  have pre: "prefix s (validate_workflow s)"
    by (simp add: validate_workflow_def Let_def)
  have flagged: "\<exists>msg. msg \<noteq> [] \<and>
             ''Code block '' @ str_of_nat (i + 1) @ '': '' @ msg \<in> set (validation_notes s) \<and>
             validate_workflow s = s @ notes_header @ join [newline] (validation_notes s)"
    if i: "i < length (code_blocks s)"
      and two: "2 \<le> length (split_char newline (strip (code_blocks s ! i)))"
      and p: "p \<in> set [''system('', ''unlink('', ''file.remove('']"
             "str_in p (lower (code_blocks s ! i))" for i p
  proof -
    obtain msg where msg: "validate_code_block (code_blocks s ! i) = Some msg" "msg \<noteq> []"
      using validate_code_block_dangerous [OF p] by blast
    have bn: "block_note (i, code_blocks s ! i) =
        Some (''Code block '' @ str_of_nat (i + 1) @ '': '' @ msg)"
      using two msg by (simp add: block_note_def)
    have "(i, code_blocks s ! i) \<in> set (enumerate 0 (code_blocks s))"
      using i by (simp add: in_set_enumerate_eq)
    then have mem: "''Code block '' @ str_of_nat (i + 1) @ '': '' @ msg \<in> set (validation_notes s)"
      unfolding validation_notes_def using bn by (rule map_filter_mem)
    then have "validation_notes s \<noteq> []" by auto
    then have "validate_workflow s = s @ notes_header @ join [newline] (validation_notes s)"
      by (simp add: validate_workflow_def Let_def)
    with mem msg show ?thesis by blast
  qed
  have flagged_all: "\<forall>i<length (code_blocks s).
      2 \<le> length (split_char newline (strip (code_blocks s ! i))) \<and>
      (\<exists>p \<in> set [''system('', ''unlink('', ''file.remove(''].
          str_in p (lower (code_blocks s ! i)))
      \<longrightarrow> (\<exists>msg. msg \<noteq> [] \<and>
             ''Code block '' @ str_of_nat (i + 1) @ '': '' @ msg \<in> set (validation_notes s) \<and>
             validate_workflow s = s @ notes_header @ join [newline] (validation_notes s))"
    using flagged by blast
  have skip: "length (split_char newline (strip b)) < 2 \<longrightarrow> block_note (k, b) = None"
    using block_note_one_line by blast
  have source: "\<forall>n \<in> set (validation_notes s). \<exists>i<length (code_blocks s).
      2 \<le> length (split_char newline (strip (code_blocks s ! i))) \<and>
      (\<exists>msg. validate_code_block (code_blocks s ! i) = Some msg \<and> msg \<noteq> [] \<and>
         n = ''Code block '' @ str_of_nat (i + 1) @ '': '' @ msg)"
    using validation_notes_source by blast
  have plain: "(\<forall>b \<in> set (code_blocks s). length (split_char newline (strip b)) < 2) \<longrightarrow>
      validation_notes s = [] \<and> validate_workflow s = s"
  proof
    assume "\<forall>b \<in> set (code_blocks s). length (split_char newline (strip b)) < 2"
    then have "validation_notes s = []" by (rule validation_notes_one_line)
    then show "validation_notes s = [] \<and> validate_workflow s = s"
      by (simp add: validate_workflow_def)
  qed
  show ?thesis using pre flagged_all skip source plain by (intro conjI)
qed

text \<open>
  An answer with two blocks: the first has one line and calls \<open>system(\<close>, the second has
  two lines and calls \<open>unlink(\<close>. The only note is the one of the second block.
\<close>

lemma one_line_blocks: "code_blocks one_line_answer = [''system(x)'']"
  by (simp add: one_line_answer_def fence_open_def fence_close_def newline_def
      code_blocks.simps)

lemma mixed_blocks:
  "code_blocks mixed_answer = [''system(x)'', ''x <- 1'' @ [newline] @ ''unlink(x)'']"
  by (simp add: mixed_answer_def fence_open_def fence_close_def newline_def
      code_blocks.simps)

lemma mixed_notes:
  "validation_notes mixed_answer =
     [''Code block 2: Contains potentially dangerous operation: unlink('']"
  unfolding validation_notes_def mixed_blocks by code_simp

theorem validate_workflow_advisory_witness:
  "prefix mixed_answer (validate_workflow mixed_answer) \<and>
   length (split_char newline (strip ''system(x)'')) < 2 \<and>
   block_note (0, ''system(x)'') = None \<and>
   2 \<le> length (split_char newline (strip (code_blocks mixed_answer ! 1))) \<and>
   str_in ''unlink('' (lower (code_blocks mixed_answer ! 1)) \<and>
   (\<exists>msg. msg \<noteq> [] \<and>
      ''Code block '' @ str_of_nat (1 + 1) @ '': '' @ msg \<in> set (validation_notes mixed_answer) \<and>
      validate_workflow mixed_answer =
        mixed_answer @ notes_header @ join [newline] (validation_notes mixed_answer)) \<and>
   validation_notes mixed_answer =
     [''Code block 2: Contains potentially dangerous operation: unlink(''] \<and>
   (\<exists>i<length (code_blocks mixed_answer).
      2 \<le> length (split_char newline (strip (code_blocks mixed_answer ! i))) \<and>
      (\<exists>msg. validate_code_block (code_blocks mixed_answer ! i) = Some msg \<and> msg \<noteq> [] \<and>
         ''Code block 2: Contains potentially dangerous operation: unlink('' =
           ''Code block '' @ str_of_nat (i + 1) @ '': '' @ msg)) \<and>
   validate_workflow one_line_answer = one_line_answer"
proof -
  note main = validate_workflow_advisory [of mixed_answer "''system(x)''" 0]
  have pre: "prefix mixed_answer (validate_workflow mixed_answer)"
    using main by (rule conjunct1)
  have one: "length (split_char newline (strip ''system(x)'')) < 2"
    by (simp add: strip_def is_space_def newline_def)
  have skip: "block_note (0, ''system(x)'') = None"
    using main one by blast
  have i: "(1::nat) < length (code_blocks mixed_answer)"
    by (simp add: mixed_blocks)
  have two: "2 \<le> length (split_char newline (strip (code_blocks mixed_answer ! 1)))"
    by (simp add: mixed_blocks strip_def is_space_def newline_def)
  have p: "str_in ''unlink('' (lower (code_blocks mixed_answer ! 1))"
    by (simp add: mixed_blocks lower_def lower_char_def newline_def)
  have ex: "\<exists>p \<in> set [''system('', ''unlink('', ''file.remove(''].
      str_in p (lower (code_blocks mixed_answer ! 1))"
    using p by simp
  have flagged: "\<exists>msg. msg \<noteq> [] \<and>
      ''Code block '' @ str_of_nat (1 + 1) @ '': '' @ msg \<in> set (validation_notes mixed_answer) \<and>
      validate_workflow mixed_answer =
        mixed_answer @ notes_header @ join [newline] (validation_notes mixed_answer)"
    using main i two ex by blast
  have "''Code block 2: Contains potentially dangerous operation: unlink(''
      \<in> set (validation_notes mixed_answer)"
    by (simp add: mixed_notes)
  with main have source: "\<exists>i<length (code_blocks mixed_answer).
      2 \<le> length (split_char newline (strip (code_blocks mixed_answer ! i))) \<and>
      (\<exists>msg. validate_code_block (code_blocks mixed_answer ! i) = Some msg \<and> msg \<noteq> [] \<and>
         ''Code block 2: Contains potentially dangerous operation: unlink('' =
           ''Code block '' @ str_of_nat (i + 1) @ '': '' @ msg)"
    by blast
  have "\<forall>b \<in> set (code_blocks one_line_answer). length (split_char newline (strip b)) < 2"
    by (simp add: one_line_blocks one)
  with validate_workflow_advisory [of one_line_answer "[]" 0]
  have plain: "validate_workflow one_line_answer = one_line_answer"
    by blast
  show ?thesis
    using pre one skip two p flagged mixed_notes source plain by (intro conjI)
qed

text \<open>
  C9, as the claim states it, fails: the only block of this answer calls \<open>system(\<close>,
  it has one line, and the answer is returned with no note.
\<close>

theorem validate_workflow_one_line_counterexample:
  "code_blocks one_line_answer = [''system(x)''] \<and>
   str_in ''system('' (lower ''system(x)'') \<and>
   validate_workflow one_line_answer = one_line_answer"
proof -
  have sp: "length (split_char newline (strip ''system(x)'')) = 1"
    by (simp add: strip_def is_space_def newline_def)
  have vn: "validation_notes one_line_answer = []"
    by (simp add: validation_notes_def one_line_blocks block_note_def sp List.map_filter_def)
  show ?thesis
    by (simp add: one_line_blocks vn validate_workflow_def lower_def lower_char_def)
qed

section \<open>Properties of the hybrid retrieval\<close>

lemma doc_lookup_snoc: "doc_lookup (xs @ [x]) = (doc_lookup xs)(doc_id x \<mapsto> x)"
  by (auto simp: doc_lookup_def dict_of_def)

lemma doc_lookup_Nil: "doc_lookup [] = Map.empty"
  by (simp add: doc_lookup_def dict_of_def)

lemma doc_lookup_Some:
  "doc_lookup docs i = Some d \<Longrightarrow>
     doc_id d = i \<and> d \<in> set docs \<and> last (filter (\<lambda>x. doc_id x = i) docs) = d"
proof (induction docs rule: rev_induct)
  case Nil
  then show ?case by (simp add: doc_lookup_Nil)
next
  case (snoc x xs)
  show ?case
  proof (cases "doc_id x = i")
    case True
    then show ?thesis using snoc.prems by (simp add: doc_lookup_snoc)
  next
    case False
    then have "doc_lookup xs i = Some d" using snoc.prems by (simp add: doc_lookup_snoc)
    from snoc.IH [OF this] False show ?thesis by simp
  qed
qed

lemma doc_lookup_None: "doc_lookup docs i = None \<longleftrightarrow> i \<notin> doc_id ` set docs"
  by (simp add: doc_lookup_def dict_of_def map_of_eq_None_iff image_image)



lemma py_take_is_take: "\<exists>n. py_take k xs = take n xs"
  by (auto simp: py_take_def)


lemma mset_sort_desc: "mset (sort_desc xs) = mset xs"
  by (simp add: sort_desc_def)


lemma map_filter_found_ids:
  "map (\<lambda>p. doc_id (fst p)) (List.map_filter (found docs) T) =
     map fst (filter (\<lambda>p. doc_lookup docs (fst p) \<noteq> None) T)"
proof (induction T)
  case Nil
  then show ?case by simp
next
  case (Cons p T)
  obtain i s where p: "p = (i, s)" by (cases p)
  show ?case
  proof (cases "doc_lookup docs i")
    case None
    then show ?thesis using Cons.IH p by (simp add: found_def)
  next
    case (Some d)
    then have "doc_id d = i" using doc_lookup_Some by blast
    then show ?thesis using Cons.IH p Some by (simp add: found_def)
  qed
qed

lemma map_filter_found_scores:
  "map snd (List.map_filter (found docs) T) =
     map snd (filter (\<lambda>p. doc_lookup docs (fst p) \<noteq> None) T)"
proof (induction T)
  case Nil
  then show ?case by simp
next
  case (Cons p T)
  obtain i s where p: "p = (i, s)" by (cases p)
  show ?case using Cons.IH p
    by (cases "doc_lookup docs i") (simp_all add: found_def)
qed

lemma map_filter_found_mem:
  assumes "(d, s) \<in> set (List.map_filter (found docs) T)"
  shows "(doc_id d, s) \<in> set T \<and> doc_lookup docs (doc_id d) = Some d"
proof -
  from assms obtain p where p: "p \<in> set T" and f: "found docs p = Some (d, s)"
    by (auto simp: List.map_filter_def)
  obtain i s' where ps: "p = (i, s')" by (cases p)
  from f ps have l: "doc_lookup docs i = Some d" and "s' = s"
    by (auto simp: found_def)
  moreover from l have "doc_id d = i" using doc_lookup_Some by blast
  ultimately show ?thesis using p ps by simp
qed

lemma all_doc_ids_props:
  assumes "\<And>xs. mset (iter xs) = mset xs"
  shows "distinct (all_doc_ids iter docs B D)"
    and "set (all_doc_ids iter docs B D) =
           fst ` set (bm25_pairs docs B) \<union> fst ` set (normalize D)"
proof -
  let ?xs = "remdups (map fst (bm25_pairs docs B) @ map fst (normalize D))"
  have m: "mset (all_doc_ids iter docs B D) = mset ?xs"
    by (simp add: all_doc_ids_def assms)
  have "distinct ?xs" by simp
  then show "distinct (all_doc_ids iter docs B D)"
    using m by (metis mset_eq_imp_distinct_iff)
  have "set (all_doc_ids iter docs B D) = set ?xs"
    using m by (metis mset_eq_setD)
  then show "set (all_doc_ids iter docs B D) =
           fst ` set (bm25_pairs docs B) \<union> fst ` set (normalize D)"
    by simp
qed

lemma normalize_fst: "map fst (normalize rs) = map fst rs"
  by (auto simp: normalize_def Let_def split: prod.splits)


lemma retrieve_cases:
  assumes "retrieve L s q k w = Inr res"
  shows "res = [] \<or>
    (\<exists>idx D. bm25 s = Some idx \<and> embedding_model s \<noteq> None \<and>
       dense_retrieve L s q (k * 2) = Inr D \<and>
       res = hybrid_rerank (set_iter L) (documents s) (bm25_retrieve L idx q (k * 2)) D k w)"
  using assms by (auto simp: retrieve_def Let_def split: option.splits sum.splits)

lemma hybrid_rerank_ids:
  assumes "\<And>xs. mset (iter xs) = mset xs"
  shows "distinct (map (\<lambda>p. doc_id (fst p)) (hybrid_rerank iter docs B D k w))"
proof -
  let ?C = "map (\<lambda>i. (i, combined_score docs B D w i)) (all_doc_ids iter docs B D)"
  obtain n where n: "py_take k (sort_desc ?C) = take n (sort_desc ?C)"
    using py_take_is_take by blast
  have fst_C: "map fst ?C = all_doc_ids iter docs B D"
    by (simp add: comp_def)
  have "mset (map fst (sort_desc ?C)) = image_mset fst (mset (sort_desc ?C))"
    by (simp only: mset_map)
  also have "\<dots> = image_mset fst (mset ?C)"
    by (simp only: mset_sort_desc)
  also have "\<dots> = mset (map fst ?C)"
    by (simp only: mset_map)
  finally have m: "mset (map fst (sort_desc ?C)) = mset (all_doc_ids iter docs B D)"
    by (simp only: fst_C)
  have "distinct (map fst (sort_desc ?C))"
    using mset_eq_imp_distinct_iff [OF m] all_doc_ids_props(1) [OF assms, of docs B D]
    by simp
  then have "distinct (take n (map fst (sort_desc ?C)))"
    by (rule distinct_take)
  then have "distinct (map fst (take n (sort_desc ?C)))"
    by (simp add: take_map)
  then have "distinct (map fst (filter (\<lambda>p. doc_lookup docs (fst p) \<noteq> None)
      (take n (sort_desc ?C))))"
    by (rule distinct_map_filter)
  then show ?thesis
    by (simp add: hybrid_rerank_def Let_def n map_filter_found_ids)
qed

lemma hybrid_rerank_docs:
  assumes "p \<in> set (hybrid_rerank iter docs B D k w)"
  shows "fst p \<in> set docs \<and> last (filter (\<lambda>x. doc_id x = doc_id (fst p)) docs) = fst p"
proof -
  obtain d sc where p: "p = (d, sc)" by (cases p)
  have "(d, sc) \<in> set (List.map_filter (found docs)
      (py_take k (sort_desc (map (\<lambda>i. (i, combined_score docs B D w i))
         (all_doc_ids iter docs B D)))))"
    using assms p by (simp add: hybrid_rerank_def Let_def)
  from map_filter_found_mem [OF this] have "doc_lookup docs (doc_id d) = Some d"
    by simp
  from doc_lookup_Some [OF this]
  have "d \<in> set docs" and "last (filter (\<lambda>x. doc_id x = doc_id d) docs) = d"
    by simp_all
  then show ?thesis using p by simp
qed


text \<open>
  C10. Whatever the corpus holds, also several documents under one id, and whatever the
  two passes return, a result of \<open>retrieve\<close> names every id at most once, and the document
  returned for an id is the last document of the corpus with that id: the one added most
  recently. The order in which a set is visited is some order of its elements.
\<close>

theorem retrieve_one_pair_per_id:
  assumes "\<And>xs. mset (set_iter L xs) = mset xs" and "retrieve L s q k w = Inr res"
  shows "distinct (map (\<lambda>p. doc_id (fst p)) res) \<and>
         (\<forall>p \<in> set res. fst p \<in> set (documents s) \<and>
            last (filter (\<lambda>x. doc_id x = doc_id (fst p)) (documents s)) = fst p)"
proof (cases "res = []")
  case True
  then show ?thesis by simp
next
  case False
  with retrieve_cases [OF assms(2)] obtain idx D where
    r: "res = hybrid_rerank (set_iter L) (documents s) (bm25_retrieve L idx q (k * 2)) D k w"
    by blast
  have d: "distinct (map (\<lambda>p. doc_id (fst p)) res)"
    unfolding r by (rule hybrid_rerank_ids) (rule assms(1))
  have l: "fst p \<in> set (documents s) \<and>
      last (filter (\<lambda>x. doc_id x = doc_id (fst p)) (documents s)) = fst p"
    if "p \<in> set res" for p
    using that unfolding r by (rule hybrid_rerank_docs)
  show ?thesis using d l by blast
qed

text \<open>
  C5, as the code has it. The guard of \<open>retrieve\<close> looks at the lexical index and at the
  embedding model only: while one of them is missing, \<open>retrieve\<close> returns the empty
  result, for every query, every \<open>top_k\<close> (negative ones too) and every weight, and raises
  nothing, since the guard stands before the first call of a library. The collection of
  the vector store is not looked at by the guard: with an index and a model but no
  collection, \<open>retrieve\<close> raises the exception of the look-up of the collection.
\<close>

theorem retrieve_uninitialized:
  "(bm25 s = None \<or> embedding_model s = None \<longrightarrow>
      retrieve L s q top_k bm25_weight = Inr []) \<and>
   (bm25 s \<noteq> None \<and> embedding_model s \<noteq> None \<and> collection s = None \<longrightarrow>
      retrieve L s q top_k bm25_weight = Inl CollectionNotFound)"
  by (auto simp: retrieve_def dense_retrieve_def Let_def split: option.splits)

lemma no_collection_state:
  "no_collection =
     \<lparr>bm25 = Some [[''regression'', ''fit'']], documents = [doc_a],
      embedding_model = Some ''all-MiniLM-L6-v2'', collection = None\<rparr>"
  by code_simp

theorem retrieve_uninitialized_witness:
  "bm25 new_retriever = None \<and> retrieve example_libs new_retriever ''lm'' 5 0.3 = Inr [] \<and>
   embedding_model (new_retriever\<lparr>bm25 := Some [[''lm'']]\<rparr>) = None \<and>
   retrieve example_libs (new_retriever\<lparr>bm25 := Some [[''lm'']]\<rparr>) ''lm'' (- 1) 1 = Inr [] \<and>
   bm25 no_collection \<noteq> None \<and> embedding_model no_collection \<noteq> None \<and>
   collection no_collection = None \<and>
   retrieve example_libs no_collection ''fit'' 5 0.3 = Inl CollectionNotFound"
proof -
  have a: "bm25 new_retriever = None" by (simp add: new_retriever_def)
  have b: "embedding_model (new_retriever\<lparr>bm25 := Some [[''lm'']]\<rparr>) = None"
    by (simp add: new_retriever_def)
  have c: "retrieve example_libs new_retriever ''lm'' 5 0.3 = Inr []"
    using retrieve_uninitialized [of new_retriever example_libs "''lm''" 5 "0.3"] a by simp
  have d: "retrieve example_libs (new_retriever\<lparr>bm25 := Some [[''lm'']]\<rparr>) ''lm'' (- 1) 1 = Inr []"
    using retrieve_uninitialized [of "new_retriever\<lparr>bm25 := Some [[''lm'']]\<rparr>" example_libs
        "''lm''" "- 1" 1] b by simp
  have e: "bm25 no_collection \<noteq> None" "embedding_model no_collection \<noteq> None"
    "collection no_collection = None"
    by (simp_all add: no_collection_state)
  have f: "retrieve example_libs no_collection ''fit'' 5 0.3 = Inl CollectionNotFound"
    using retrieve_uninitialized [of no_collection example_libs "''fit''" 5 "0.3"] e by simp
  show ?thesis using a b c d e f by (intro conjI)
qed

text \<open>
  C5, as the claim states it, fails on the side of the vector store. A document is added
  before the embedding model is loaded: the corpus and the lexical index are set, the
  addition raises before a collection exists. The model is loaded afterwards. The vector
  side of this retriever is not initialized, and \<open>retrieve\<close> raises instead of returning
  the empty result.
\<close>

theorem retrieve_no_collection_counterexample:
  "add_documents example_libs new_retriever [doc_a] =
     (\<lparr>bm25 = Some [[''regression'', ''fit'']], documents = [doc_a],
       embedding_model = None, collection = None\<rparr>, Some EmbeddingModelNotInitialized) \<and>
   collection no_collection = None \<and>
   retrieve example_libs no_collection ''fit'' 5 0.3 = Inl CollectionNotFound"
  by code_simp

text \<open>
  A corpus with two documents under the id \<open>x\<close>: the result holds the id once, with the
  document added last.
\<close>

lemma duplicate_corpus_run:
  "retrieve example_libs duplicate_corpus ''alpha'' 2 1 = Inr [(doc_y, 2 / 3), (doc_x2, 1 / 3)]"
  by code_simp

lemma duplicate_corpus_documents: "documents duplicate_corpus = [doc_x1, doc_y, doc_x2]"
  by code_simp

lemma example_set_iter: "mset (set_iter example_libs xs) = mset xs"
  by (simp add: example_libs_def)

theorem retrieve_one_pair_per_id_witness:
  "retrieve example_libs duplicate_corpus ''alpha'' 2 1 = Inr [(doc_y, 2 / 3), (doc_x2, 1 / 3)] \<and>
   map doc_id (documents duplicate_corpus) = [''x'', ''y'', ''x''] \<and>
   distinct (map (\<lambda>p. doc_id (fst p)) [(doc_y, 2 / 3 :: real), (doc_x2, 1 / 3)]) \<and>
   last (filter (\<lambda>x. doc_id x = doc_id doc_x2) (documents duplicate_corpus)) = doc_x2"
proof -
  have ids: "map doc_id (documents duplicate_corpus) = [''x'', ''y'', ''x'']"
    by (simp add: duplicate_corpus_documents doc_x1_def doc_y_def doc_x2_def)
  note main = retrieve_one_pair_per_id [OF example_set_iter duplicate_corpus_run]
  have a: "distinct (map (\<lambda>p. doc_id (fst p)) [(doc_y, 2 / 3 :: real), (doc_x2, 1 / 3)])"
    using main by (rule conjunct1)
  have "(doc_x2, 1 / 3 :: real) \<in> set [(doc_y, 2 / 3), (doc_x2, 1 / 3)]" by simp
  with main have b: "last (filter (\<lambda>x. doc_id x = doc_id doc_x2) (documents duplicate_corpus)) = doc_x2"
    by fastforce
  show ?thesis using duplicate_corpus_run ids a b by blast
qed

section \<open>Properties of the ingestion\<close>

lemma add_to_vector_db_documents: "documents (fst (add_to_vector_db L s docs)) = documents s"
  by (simp add: add_to_vector_db_def Let_def split: option.splits)

lemma add_documents_documents: "documents (fst (add_documents L s docs)) = documents s @ docs"
  by (simp add: add_documents_def Let_def add_to_vector_db_documents split: option.splits)

lemma add_to_vector_db_bm25: "bm25 (fst (add_to_vector_db L s docs)) = bm25 s"
  by (simp add: add_to_vector_db_def Let_def split: option.splits)

lemma add_documents_bm25:
  "bm25_okapi L (map (\<lambda>doc. split_ws (content doc)) (documents s @ docs)) = Some idx \<Longrightarrow>
     bm25 (fst (add_documents L s docs)) = Some idx"
  by (simp add: add_documents_def Let_def add_to_vector_db_bm25)

lemma doc_lookup_append: "doc_lookup (xs @ ys) = doc_lookup xs ++ doc_lookup ys"
  by (simp add: doc_lookup_def dict_of_def)

lemma map_add_twice: "m ++ n ++ n = m ++ n"
  by (rule ext) (simp add: map_add_def split: option.splits)

lemma doc_lookup_twice: "doc_lookup (xs @ ys @ ys) = doc_lookup (xs @ ys)"
  using map_add_twice [of "doc_lookup xs" "doc_lookup ys"]
  by (simp add: doc_lookup_append)

lemma doc_lookup_last:
  assumes "i \<in> doc_id ` set docs"
  shows "doc_lookup docs i = Some (last (filter (\<lambda>x. doc_id x = i) docs))"
proof (cases "doc_lookup docs i")
  case None
  then show ?thesis using assms by (simp add: doc_lookup_None)
next
  case (Some d)
  from doc_lookup_Some [OF this] show ?thesis using Some by simp
qed

lemma last_filter_append:
  assumes "x \<in> set ys" and "P x"
  shows "last (filter P (xs @ ys)) = last (filter P ys)"
proof -
  have "filter P ys \<noteq> []"
    using assms by (auto simp: filter_empty_conv)
  then show ?thesis by simp
qed

lemma doc_lookup_batch:
  assumes "d \<in> set docs"
  shows "doc_lookup (old @ docs) (doc_id d) =
     Some (last (filter (\<lambda>x. doc_id x = doc_id d) docs))"
proof -
  have "doc_id d \<in> doc_id ` set (old @ docs)"
    using assms by simp
  then have "doc_lookup (old @ docs) (doc_id d) =
     Some (last (filter (\<lambda>x. doc_id x = doc_id d) (old @ docs)))"
    by (rule doc_lookup_last)
  moreover have "last (filter (\<lambda>x. doc_id x = doc_id d) (old @ docs)) =
     last (filter (\<lambda>x. doc_id x = doc_id d) docs)"
    using assms by (rule last_filter_append) simp
  ultimately show ?thesis by simp
qed

lemma not_distinct_twice: "docs \<noteq> [] \<Longrightarrow> \<not> distinct (map f (old @ docs @ docs))"
  by (cases docs) auto

text \<open>
  C2, as the code has it. \<open>add_documents\<close> appends: after the same batch is added twice
  the corpus is the old corpus followed by the batch twice, so the ids of a batch that is
  not empty are there more than once, and the lexical index, when it can be built, is the
  one built over that longer corpus. The look-up by id that \<open>retrieve\<close> uses is
  last-write-wins by the order of appending: an id of the batch stands for the last
  document of the batch with that id, after one addition and after two, and the look-up
  is the same map after one and after two additions.
\<close>

theorem add_documents_twice:
  "documents (fst (add_documents L (fst (add_documents L s docs)) docs)) =
     documents s @ docs @ docs \<and>
   (docs \<noteq> [] \<longrightarrow>
      \<not> distinct (map doc_id
           (documents (fst (add_documents L (fst (add_documents L s docs)) docs))))) \<and>
   (\<forall>d \<in> set docs.
      doc_lookup (documents (fst (add_documents L s docs))) (doc_id d) =
        Some (last (filter (\<lambda>x. doc_id x = doc_id d) docs)) \<and>
      doc_lookup (documents (fst (add_documents L (fst (add_documents L s docs)) docs)))
          (doc_id d) =
        Some (last (filter (\<lambda>x. doc_id x = doc_id d) docs))) \<and>
   doc_lookup (documents (fst (add_documents L (fst (add_documents L s docs)) docs))) =
     doc_lookup (documents (fst (add_documents L s docs))) \<and>
   (\<forall>idx. bm25_okapi L (map (\<lambda>doc. split_ws (content doc)) (documents s @ docs @ docs)) = Some idx
      \<longrightarrow> bm25 (fst (add_documents L (fst (add_documents L s docs)) docs)) = Some idx)"
proof -
  have a: "documents (fst (add_documents L (fst (add_documents L s docs)) docs)) =
     documents s @ docs @ docs"
    by (simp add: add_documents_documents)
  have a1: "documents (fst (add_documents L s docs)) = documents s @ docs"
    by (rule add_documents_documents)
  have n: "docs \<noteq> [] \<longrightarrow>
      \<not> distinct (map doc_id
           (documents (fst (add_documents L (fst (add_documents L s docs)) docs))))"
    unfolding a using not_distinct_twice [of docs doc_id "documents s"] by blast
  have l: "\<forall>d \<in> set docs.
      doc_lookup (documents (fst (add_documents L s docs))) (doc_id d) =
        Some (last (filter (\<lambda>x. doc_id x = doc_id d) docs)) \<and>
      doc_lookup (documents (fst (add_documents L (fst (add_documents L s docs)) docs)))
          (doc_id d) =
        Some (last (filter (\<lambda>x. doc_id x = doc_id d) docs))"
  proof
    fix d assume d: "d \<in> set docs"
    have "doc_lookup (documents s @ docs) (doc_id d) =
        Some (last (filter (\<lambda>x. doc_id x = doc_id d) docs))"
      using d by (rule doc_lookup_batch)
    moreover have "doc_lookup ((documents s @ docs) @ docs) (doc_id d) =
        Some (last (filter (\<lambda>x. doc_id x = doc_id d) docs))"
      using d by (rule doc_lookup_batch)
    ultimately show "doc_lookup (documents (fst (add_documents L s docs))) (doc_id d) =
        Some (last (filter (\<lambda>x. doc_id x = doc_id d) docs)) \<and>
      doc_lookup (documents (fst (add_documents L (fst (add_documents L s docs)) docs)))
          (doc_id d) =
        Some (last (filter (\<lambda>x. doc_id x = doc_id d) docs))"
      unfolding a a1 by simp
  qed
  have b: "doc_lookup (documents (fst (add_documents L (fst (add_documents L s docs)) docs))) =
     doc_lookup (documents (fst (add_documents L s docs)))"
    by (simp add: add_documents_documents doc_lookup_twice)
  have c: "\<forall>idx. bm25_okapi L (map (\<lambda>doc. split_ws (content doc)) (documents s @ docs @ docs)) = Some idx
      \<longrightarrow> bm25 (fst (add_documents L (fst (add_documents L s docs)) docs)) = Some idx"
  proof (intro allI impI)
    fix idx
    assume "bm25_okapi L (map (\<lambda>doc. split_ws (content doc)) (documents s @ docs @ docs)) = Some idx"
    then show "bm25 (fst (add_documents L (fst (add_documents L s docs)) docs)) = Some idx"
      by (intro add_documents_bm25) (simp add: add_documents_documents)
  qed
  show ?thesis using a n l b c by (intro conjI)
qed


lemma added_twice_run:
  "add_documents example_libs added_once [doc_p, doc_q] =
     (\<lparr>bm25 = Some [[''alpha'', ''alpha''], [''alpha''], [''alpha'', ''alpha''], [''alpha'']],
       documents = [doc_p, doc_q, doc_p, doc_q],
       embedding_model = Some ''all-MiniLM-L6-v2'', collection = Some [doc_p, doc_q]\<rparr>, None)"
  by code_simp

text \<open>
  C2, as the claim states it, fails in both parts. The batch is added twice without any
  exception; the corpus then holds each of the two ids twice; and the query \<open>alpha\<close> with
  \<open>top_k = 1\<close> and the weight 0.5 returns \<open>q\<close> after one addition and \<open>p\<close> after two:
  the two copies of \<open>p\<close> take the two places of the lexical pass, so \<open>q\<close> has lost its
  lexical score.
\<close>

theorem add_documents_twice_counterexample:
  "snd (add_documents example_libs loaded_retriever [doc_p, doc_q]) = None \<and>
   snd (add_documents example_libs added_once [doc_p, doc_q]) = None \<and>
   map doc_id (documents added_once) = [''p'', ''q''] \<and>
   map doc_id (documents added_twice) = [''p'', ''q'', ''p'', ''q''] \<and>
   retrieve example_libs added_once ''alpha'' 1 (1 / 2) = Inr [(doc_q, 3 / 4)] \<and>
   retrieve example_libs added_twice ''alpha'' 1 (1 / 2) = Inr [(doc_p, 19 / 37)]"
  by code_simp

theorem add_documents_twice_witness:
  "[doc_p, doc_q] \<noteq> [] \<and>
   \<not> distinct (map doc_id (documents added_twice)) \<and>
   documents added_twice = documents loaded_retriever @ [doc_p, doc_q] @ [doc_p, doc_q] \<and>
   doc_q \<in> set [doc_p, doc_q] \<and>
   doc_lookup (documents added_once) ''q'' = Some doc_q \<and>
   doc_lookup (documents added_twice) ''q'' = Some doc_q \<and>
   bm25_okapi example_libs (map (\<lambda>doc. split_ws (content doc))
      (documents loaded_retriever @ [doc_p, doc_q] @ [doc_p, doc_q])) =
     Some [[''alpha'', ''alpha''], [''alpha''], [''alpha'', ''alpha''], [''alpha'']] \<and>
   bm25 added_twice =
     Some [[''alpha'', ''alpha''], [''alpha''], [''alpha'', ''alpha''], [''alpha'']]"
proof -
  note main = add_documents_twice [of example_libs loaded_retriever "[doc_p, doc_q]"]
  have on: "fst (add_documents example_libs loaded_retriever [doc_p, doc_q]) = added_once"
    and tw: "fst (add_documents example_libs added_once [doc_p, doc_q]) = added_twice"
    by (simp_all add: added_twice_def added_once_def)
  have h: "bm25_okapi example_libs (map (\<lambda>doc. split_ws (content doc))
      (documents loaded_retriever @ [doc_p, doc_q] @ [doc_p, doc_q])) =
     Some [[''alpha'', ''alpha''], [''alpha''], [''alpha'', ''alpha''], [''alpha'']]"
    by code_simp
  have ne: "[doc_p, doc_q] \<noteq> []" by simp
  have mem: "doc_q \<in> set [doc_p, doc_q]" by simp
  have a: "documents added_twice = documents loaded_retriever @ [doc_p, doc_q] @ [doc_p, doc_q]"
    using main unfolding on tw by (rule conjunct1)
  have n: "\<not> distinct (map doc_id (documents added_twice))"
    using main ne unfolding on tw by blast
  have "doc_lookup (documents added_once) (doc_id doc_q) =
        Some (last (filter (\<lambda>x. doc_id x = doc_id doc_q) [doc_p, doc_q])) \<and>
      doc_lookup (documents added_twice) (doc_id doc_q) =
        Some (last (filter (\<lambda>x. doc_id x = doc_id doc_q) [doc_p, doc_q]))"
    using main mem unfolding on tw by blast
  then have l: "doc_lookup (documents added_once) ''q'' = Some doc_q"
    "doc_lookup (documents added_twice) ''q'' = Some doc_q"
    by (simp_all add: doc_p_def doc_q_def)
  have b: "bm25 added_twice =
     Some [[''alpha'', ''alpha''], [''alpha''], [''alpha'', ''alpha''], [''alpha'']]"
    using main h unfolding on tw by blast
  show ?thesis using ne n a mem l h b by (intro conjI)
qed

section \<open>Properties of the fusion\<close>

lemma bm25_pairs_stored:
  assumes "i \<in> fst ` set (bm25_pairs docs B)"
  shows "i \<in> doc_id ` set docs"
proof -
  from assms obtain idx where "idx < length docs" and "i = doc_id (docs ! idx)"
    by (auto simp: bm25_pairs_def)
  then show ?thesis using nth_mem [of idx docs] by simp
qed





















section \<open>Properties of the two passes alone\<close>










lemma normalize_snd_fst:
  "\<forall>p \<in> set (normalize rs). fst p \<in> fst ` set rs"
  using normalize_fst [of rs] by (metis image_eqI list.set_map)









end
